theory Spec2Isabelle
  imports Main "HOL-Library.Word" "HOL-Library.AList"
begin

section \<open>The push consumer of lib/consumer/mq\_push\_consumer.js\<close>

text \<open>
  A shallow embedding of \<^verbatim>\<open>MQPushConsumer\<close>. The collaborators of the class
  (offset store, MQClient, ProcessQueue, utils, logger) are not part of the modelled file:
  a call to one of them is recorded as an event of a trace, and what the call returns
  (or that it throws) is an argument of the function that makes the call.

  JavaScript strings are modelled by \<open>string\<close>, one \<open>char\<close> for one code unit below 256.
\<close>

subsection \<open>Strings: split, trim, hash\<close>

text \<open>\<^verbatim>\<open>subString.split('||')\<close>: the pieces between the occurrences of the separator, found
  left to right. The first argument is the piece read so far.\<close>

fun split_bars :: "string \<Rightarrow> string \<Rightarrow> string list" where
  "split_bars cur [] = [cur]"
| "split_bars cur [c] = [cur @ [c]]"
| "split_bars cur (c # d # rest) =
     (if c = CHR ''|'' \<and> d = CHR ''|'' then cur # split_bars [] rest
      else split_bars (cur @ [c]) (d # rest))"

text \<open>\<^verbatim>\<open>pieces.join('||')\<close>, the inverse of the split.\<close>

fun join_bars :: "string list \<Rightarrow> string" where
  "join_bars [] = []"
| "join_bars [x] = x"
| "join_bars (x # y # zs) = x @ ''||'' @ join_bars (y # zs)"

text \<open>The white space and line terminators that \<^verbatim>\<open>String.prototype.trim\<close> removes,
  among the code units below 256: TAB, LF, VT, FF, CR, SP and NBSP.\<close>

definition isWhiteSpace :: "char \<Rightarrow> bool" where
  "isWhiteSpace c = ((of_char c :: nat) \<in> {9, 10, 11, 12, 13, 32, 160})"

definition trim :: "string \<Rightarrow> string" where
  "trim s = rev (dropWhile isWhiteSpace (rev (dropWhile isWhiteSpace s)))"

text \<open>Modelled from the spec: \<^verbatim>\<open>utils.hashCode\<close> is not among the sources. The spec
  describes it as the 32-bit hash of Java's \<^verbatim>\<open>String.hashCode\<close>: a rolling hash with
  multiplier 31 over the code units.\<close>

definition hashCode :: "string \<Rightarrow> 32 word" where
  "hashCode s = foldl (\<lambda>h c. 31 * h + of_nat (of_char c)) 0 s"

subsection \<open>Numbers\<close>

text \<open>A JavaScript number is a binary64 value; the numbers of the consumer hold integers and
  are modelled by \<open>int\<close>. \<open>roundAt 0 a\<close> is the binary64 value nearest to the natural
  number \<open>a\<close>: \<open>a\<close> itself below \<open>2 ^ 53\<close>, and otherwise the nearest multiple of the
  power of two that leaves 53 bits, a tie going to the even one.\<close>

definition roundHalfEven :: "nat \<Rightarrow> nat \<Rightarrow> nat" where
  "roundHalfEven e a =
     (let q = a div 2 ^ e; r = a mod 2 ^ e in
      if 2 * r > 2 ^ e \<or> (2 * r = 2 ^ e \<and> odd q) then (q + 1) * 2 ^ e else q * 2 ^ e)"

function roundAt :: "nat \<Rightarrow> nat \<Rightarrow> nat" where
  "roundAt e a = (if a div 2 ^ e < 2 ^ 53 then roundHalfEven e a else roundAt (Suc e) a)"
  by pat_completeness auto
termination
proof (relation "measure (\<lambda>(e, a). a div 2 ^ e)")
  show "wf (measure (\<lambda>(e, a). a div 2 ^ e))" by simp
next
  fix e a :: nat
  assume "\<not> a div 2 ^ e < 2 ^ 53"
  then have pos: "0 < a div 2 ^ e" by (simp add: not_less)
  have "a div 2 ^ Suc e = (a div 2 ^ e) div 2"
    by (simp only: power_Suc2 div_mult2_eq)
  then have "a div 2 ^ Suc e < a div 2 ^ e"
    using pos by simp
  then show "((Suc e, a), (e, a)) \<in> measure (\<lambda>(e, a). a div 2 ^ e)" by simp
qed

text \<open>\<^verbatim>\<open>Number(x)\<close> for a 64-bit integer \<open>x\<close>, and \<^verbatim>\<open>x + y\<close> on two numbers that hold
  integers: the exact sum, rounded.\<close>

definition toNumber :: "int \<Rightarrow> int" where
  "toNumber n = sgn n * int (roundAt 0 (nat \<bar>n\<bar>))"

definition jsAdd :: "int \<Rightarrow> int \<Rightarrow> int" where
  "jsAdd x y = toNumber (x + y)"

subsection \<open>Subscription data\<close>

datatype error =
    SplitError
  | TypeError
  | BrokerNotExist
  | RpcError
  | ProcessTimeout
  | StoreError

record subscriptionData =
  sd_topic :: string
  subString :: "string option"
  classFilterMode :: bool
  tagsSet :: "string list"
  codeSet :: "32 word list"
  subVersion :: int

text \<open>The body of the \<^verbatim>\<open>for (let tag of tags)\<close> loop of \<^verbatim>\<open>buildSubscriptionData\<close>.\<close>

definition push_tag :: "subscriptionData \<Rightarrow> string \<Rightarrow> subscriptionData" where
  "push_tag sd tag =
     (let t = trim tag in
      if t \<noteq> [] then sd\<lparr>tagsSet := tagsSet sd @ [t], codeSet := codeSet sd @ [hashCode t]\<rparr>
      else sd)"

text \<open>\<^verbatim>\<open>buildSubscriptionData(consumerGroup, topic, subString)\<close>; \<open>None\<close> is
  \<^verbatim>\<open>null\<close> or \<^verbatim>\<open>undefined\<close>, \<open>now\<close> is what \<^verbatim>\<open>Date.now()\<close> returns.\<close>

definition buildSubscriptionData ::
  "string \<Rightarrow> string \<Rightarrow> string option \<Rightarrow> int \<Rightarrow> error + subscriptionData" where
  "buildSubscriptionData consumerGroup topic sub now =
     (let sd = \<lparr>sd_topic = topic, subString = sub, classFilterMode = False,
                tagsSet = [], codeSet = [], subVersion = now\<rparr>
      in case sub of
           None \<Rightarrow> Inr (sd\<lparr>subString := Some ''*''\<rparr>)
         | Some e \<Rightarrow>
             if e = ''*'' \<or> e = '''' then Inr (sd\<lparr>subString := Some ''*''\<rparr>)
             else (let tags = split_bars [] e in
                   if tags \<noteq> [] then Inr (foldl push_tag sd tags)
                   else Inl SplitError))"

subsection \<open>Messages and the tag filter of the FOUND branch\<close>

text \<open>A message as the consumer reads it; \<open>queueOffset\<close> is the 64-bit offset that the
  broker gave it (the source converts it with \<^verbatim>\<open>Number\<close>, under the note
  \<^verbatim>\<open>todo: long ?\<close>).\<close>

record message =
  tags :: "string option"
  queueOffset :: "64 word"

text \<open>The predicate given to \<^verbatim>\<open>msgList.filter\<close>: \<^verbatim>\<open>msg.tags\<close> is truthy and
  \<^verbatim>\<open>tagsSet.indexOf(msg.tags) >= 0\<close>.\<close>

definition tagMatches :: "subscriptionData \<Rightarrow> message \<Rightarrow> bool" where
  "tagMatches sd msg =
     (case tags msg of None \<Rightarrow> False | Some t \<Rightarrow> t \<noteq> [] \<and> t \<in> set (tagsSet sd))"

definition filterByTags :: "subscriptionData \<Rightarrow> message list \<Rightarrow> message list" where
  "filterByTags sd msgList =
     (if tagsSet sd \<noteq> [] \<and> \<not> classFilterMode sd then filter (tagMatches sd) msgList
      else msgList)"

subsection \<open>Data of the consumer\<close>

record messageQueue =
  topic :: string
  brokerName :: string
  queueId :: int
  key :: string

text \<open>The fields of a ProcessQueue that the consumer reads and writes (the class itself is
  in another file); \<open>droped\<close> is spelt as in the source.\<close>

record processQueue =
  lastPullTimestamp :: int
  droped :: bool
  isPullExpired :: bool

text \<open>A row of the process-queue table, \<^verbatim>\<open>{ messageQueue, processQueue, nextOffset }\<close>.
  \<open>row_droped\<close> is the property \<^verbatim>\<open>droped\<close> that \<^verbatim>\<open>removeProcessQueue\<close> writes
  on the row itself (its variable \<^verbatim>\<open>processQueue\<close> holds the row).\<close>

record pullRequest =
  messageQueue :: messageQueue
  processQueue :: processQueue
  nextOffset :: int
  row_droped :: bool

datatype pullStatus = FOUND | NO_NEW_MSG | NO_MATCHED_MSG | OFFSET_ILLEGAL

record pullResult =
  pullStatus :: pullStatus
  nextBeginOffset :: int
  suggestWhichBrokerId :: int
  msgFoundList :: "message list"

record requestHeader =
  rh_consumerGroup :: string
  rh_topic :: string
  rh_queueId :: int
  rh_queueOffset :: int
  maxMsgNums :: int
  sysFlag :: nat
  commitOffset :: int
  suspendTimeoutMillis :: int
  subscription :: "string option"
  rh_subVersion :: int

text \<open>The six values of \<^verbatim>\<open>ConsumeFromWhere\<close> that \<^verbatim>\<open>computePullFromWhere\<close> names;
  its \<^verbatim>\<open>default\<close> branch is for a value outside the enumeration.\<close>

datatype consumeFromWhere =
    CONSUME_FROM_LAST_OFFSET_AND_FROM_MIN_WHEN_BOOT_FIRST
  | CONSUME_FROM_MIN_OFFSET
  | CONSUME_FROM_MAX_OFFSET
  | CONSUME_FROM_LAST_OFFSET
  | CONSUME_FROM_FIRST_OFFSET
  | CONSUME_FROM_TIMESTAMP

datatype consumeType = CONSUME_ACTIVELY | CONSUME_PASSIVELY

record options =
  isBroadcast :: bool
  brokerSuspendMaxTimeMillis :: int
  pullTimeDelayMillsWhenException :: int
  consumerTimeoutMillisWhenSuspend :: int
  consumerGroup :: string
  consumeFromWhere :: consumeFromWhere
  consumeTimestamp :: string
  pullInterval :: int
  pullBatchSize :: int
  postSubscriptionWhenPull :: bool

text \<open>Calls to the collaborators, in the order they are made.\<close>

datatype event =
    Sleep int
  | UpdateOffset messageQueue int bool
  | Persist messageQueue
  | RemoveOffset messageQueue
  | UpdateTopicRouteInfo string
  | PullMessage string requestHeader int
  | EmitMessage "message list"
  | StartPull messageQueue

text \<open>The consumer. The table is a JavaScript \<^verbatim>\<open>Map\<close> from queue key to a row object:
  an association list in insertion order, whose values are addresses into \<open>heap\<close>, where
  the row objects live. Two variables that hold the same row hold the same address.\<close>

record consumer =
  options :: options
  subscriptions :: "string \<rightharpoonup> subscriptionData"
  processQueueTable :: "(string \<times> nat) list"
  heap :: "nat \<Rightarrow> pullRequest"
  nextAddr :: nat
  pullFromWhichNodeTable :: "string \<rightharpoonup> int"
  inited :: bool
  trace :: "event list"

text \<open>How a generator of the class ends: it returns a value, or it throws; the consumer is
  what it has made of the state by then.\<close>

datatype 'a result = Returned consumer 'a | Threw error consumer

text \<open>A call of a collaborator is added to the trace. \<open>has\<close>, \<open>table_set\<close> and
  \<open>table_delete\<close> are \<^verbatim>\<open>Map.has\<close>, \<^verbatim>\<open>Map.set\<close> (an existing key keeps its place, a new
  one goes to the end) and \<^verbatim>\<open>Map.delete\<close>; \<open>modify_row\<close> writes a field of the row object
  at an address.\<close>

definition emit :: "event \<Rightarrow> consumer \<Rightarrow> consumer" where
  "emit e s = s\<lparr>trace := trace s @ [e]\<rparr>"

definition has :: "consumer \<Rightarrow> string \<Rightarrow> bool" where
  "has s k = (map_of (processQueueTable s) k \<noteq> None)"

definition table_set :: "string \<Rightarrow> nat \<Rightarrow> consumer \<Rightarrow> consumer" where
  "table_set k a s = s\<lparr>processQueueTable := AList.update k a (processQueueTable s)\<rparr>"

definition table_delete :: "string \<Rightarrow> consumer \<Rightarrow> consumer" where
  "table_delete k s = s\<lparr>processQueueTable := AList.delete k (processQueueTable s)\<rparr>"

definition modify_row :: "nat \<Rightarrow> (pullRequest \<Rightarrow> pullRequest) \<Rightarrow> consumer \<Rightarrow> consumer" where
  "modify_row a f s = s\<lparr>heap := (heap s)(a := f (heap s a))\<rparr>"

definition set_droped :: "pullRequest \<Rightarrow> pullRequest" where
  "set_droped r = r\<lparr>processQueue := (processQueue r)\<lparr>droped := True\<rparr>\<rparr>"

text \<open>\<^verbatim>\<open>MessageModel.CLUSTERING === this.messageModel\<close>, and the getter
  \<^verbatim>\<open>consumeType\<close>.\<close>

definition messageModelClustering :: "consumer \<Rightarrow> bool" where
  "messageModelClustering s = (\<not> isBroadcast (options s))"

definition consumeType :: consumeType where
  "consumeType = CONSUME_PASSIVELY"

text \<open>Modelled from the spec: \<^verbatim>\<open>MixAll.MASTER_ID\<close> and
  \<^verbatim>\<open>MixAll.RETRY_GROUP_TOPIC_PREFIX\<close> are not among the sources; the spec gives the
  master id 0 and the prefix \<^verbatim>\<open>%RETRY%\<close>.\<close>

definition MASTER_ID :: int where
  "MASTER_ID = 0"

definition RETRY_GROUP_TOPIC_PREFIX :: string where
  "RETRY_GROUP_TOPIC_PREFIX = ''%RETRY%''"

text \<open>Modelled from the spec: \<^verbatim>\<open>PullSysFlag\<close> is not among the sources; the spec gives
  the bits COMMIT\_OFFSET = 1, SUSPEND = 2, SUBSCRIPTION = 4, CLASS\_FILTER = 8.\<close>

definition buildSysFlag :: "bool \<Rightarrow> bool \<Rightarrow> bool \<Rightarrow> bool \<Rightarrow> nat" where
  "buildSysFlag c susp sub cf =
     (if c then 1 else 0) + (if susp then 2 else 0) + (if sub then 4 else 0)
       + (if cf then 8 else 0)"

definition clearCommitOffsetFlag :: "nat \<Rightarrow> nat" where
  "clearCommitOffsetFlag f = f - f mod 2"

subsection \<open>Removing a queue\<close>

text \<open>\<^verbatim>\<open>removeUnnecessaryMessageQueue(messageQueue)\<close>: persist the offset, forget it in
  memory, answer \<^verbatim>\<open>true\<close>. \<open>ok\<close> tells whether \<^verbatim>\<open>persist\<close> succeeds.\<close>

definition removeUnnecessaryMessageQueue ::
  "consumer \<Rightarrow> messageQueue \<Rightarrow> bool \<Rightarrow> bool result" where
  "removeUnnecessaryMessageQueue s mq ok =
     (let s1 = emit (Persist mq) s in
      if ok then Returned (emit (RemoveOffset mq) s1) True else Threw StoreError s1)"

text \<open>\<^verbatim>\<open>removeProcessQueue(messageQueue)\<close>.\<close>

definition removeProcessQueue :: "consumer \<Rightarrow> messageQueue \<Rightarrow> bool \<Rightarrow> unit result" where
  "removeProcessQueue s mq ok =
     (let got = map_of (processQueueTable s) (key mq);
          s1 = table_delete (key mq) s
      in case got of
           None \<Rightarrow> Returned s1 ()
         | Some b \<Rightarrow>
             (case removeUnnecessaryMessageQueue
                     (modify_row b (\<lambda>r. r\<lparr>row_droped := True\<rparr>) s1) mq ok of
                Threw e s2 \<Rightarrow> Threw e s2
              | Returned s2 _ \<Rightarrow> Returned s2 ()))"

subsection \<open>One pull\<close>

record findBrokerResult =
  brokerAddr :: string
  slave :: bool

text \<open>What the collaborators answer during one run of
  \<^verbatim>\<open>executePullRequestImmediately\<close>: the clock, the offset read from memory, the two
  look-ups of the broker address with the route refresh between them, the pull itself,
  the time in milliseconds after which the listener calls the acknowledgement that
  \<^verbatim>\<open>emit\<close> hands it (\<open>None\<close>: never), and whether the two calls of \<^verbatim>\<open>persist\<close> of the
  OFFSET\_ILLEGAL branch succeed.\<close>

record pullAnswers =
  now :: int
  readOffsetMemory :: "error + int"
  findBroker :: "string \<Rightarrow> int \<Rightarrow> findBrokerResult option"
  updateRouteOk :: bool
  findBrokerAgain :: "string \<Rightarrow> int \<Rightarrow> findBrokerResult option"
  pullMessage :: "error + pullResult"
  ackDelay :: "int option"
  persistOk :: bool
  persistOkOnRemove :: bool

text \<open>The promise of the FOUND branch: \<^verbatim>\<open>setTimeout(reject, 3000)\<close> is set before the
  batch is emitted, and the acknowledgement resolves the promise and clears the timer. The
  promise is resolved when the acknowledgement comes before the timer fires.\<close>

definition acked :: "pullAnswers \<Rightarrow> bool" where
  "acked a = (case ackDelay a of None \<Rightarrow> False | Some d \<Rightarrow> d < 3000)"

text \<open>\<^verbatim>\<open>table.get(key) || MixAll.MASTER_ID\<close>: an absent or zero entry gives the master.\<close>

definition recalculatePullFromWhichNode :: "consumer \<Rightarrow> messageQueue \<Rightarrow> int" where
  "recalculatePullFromWhichNode s mq =
     (case pullFromWhichNodeTable s (key mq) of
        None \<Rightarrow> MASTER_ID
      | Some b \<Rightarrow> if b = 0 then MASTER_ID else b)"

definition findBrokerAddress ::
  "consumer \<Rightarrow> messageQueue \<Rightarrow> pullAnswers \<Rightarrow> (findBrokerResult option) result" where
  "findBrokerAddress s mq a =
     (case findBroker a (brokerName mq) (recalculatePullFromWhichNode s mq) of
        Some r \<Rightarrow> Returned s (Some r)
      | None \<Rightarrow>
          (let s1 = emit (UpdateTopicRouteInfo (topic mq)) s in
           if updateRouteOk a
           then Returned s1 (findBrokerAgain a (brokerName mq) (recalculatePullFromWhichNode s1 mq))
           else Threw RpcError s1))"

text \<open>\<^verbatim>\<open>pullKernelImpl\<close> up to the moment the request is on the wire: the result is the
  header that was sent. The answer of the broker is consumed by \<open>pullRequestHandle\<close>.\<close>

definition pullKernelImpl ::
  "consumer \<Rightarrow> messageQueue \<Rightarrow> string option \<Rightarrow> int \<Rightarrow> int \<Rightarrow> int \<Rightarrow> pullAnswers
     \<Rightarrow> requestHeader result" where
  "pullKernelImpl s mq subExpression subVer offset commitOff a =
     (let flag = buildSysFlag (commitOff > 0) True
                   (subExpression \<noteq> None \<and> subExpression \<noteq> Some []) False
      in case findBrokerAddress s mq a of
           Threw e s1 \<Rightarrow> Threw e s1
         | Returned s1 None \<Rightarrow> Threw BrokerNotExist s1
         | Returned s1 (Some r) \<Rightarrow>
             (let flag' = (if slave r then clearCommitOffsetFlag flag else flag);
                  hdr = \<lparr>rh_consumerGroup = consumerGroup (options s1),
                         rh_topic = topic mq,
                         rh_queueId = queueId mq,
                         rh_queueOffset = offset,
                         maxMsgNums = pullBatchSize (options s1),
                         sysFlag = flag',
                         commitOffset = commitOff,
                         suspendTimeoutMillis = brokerSuspendMaxTimeMillis (options s1),
                         subscription = subExpression,
                         rh_subVersion = subVer\<rparr>
              in Returned
                   (emit (PullMessage (brokerAddr r) hdr
                            (consumerTimeoutMillisWhenSuspend (options s1))) s1)
                   hdr))"

text \<open>The state of a pull when its request leaves: finished without a request, failed,
  or waiting for the broker with the local variables \<^verbatim>\<open>pullRequest\<close> (the address of
  the row) and \<^verbatim>\<open>subscriptionData\<close>, and the header sent.\<close>

datatype pending =
    Done consumer
  | Raised error consumer
  | Issued consumer nat subscriptionData requestHeader

text \<open>The variable \<^verbatim>\<open>commitOffset\<close>: 0, replaced in cluster mode by the offset read from
  memory when \<^verbatim>\<open>if (offset)\<close> holds, that is for every number but zero.\<close>

definition readCommitOffset :: "consumer \<Rightarrow> pullAnswers \<Rightarrow> error + int" where
  "readCommitOffset s a =
     (if messageModelClustering s
      then (case readOffsetMemory a of
              Inl e \<Rightarrow> Inl e
            | Inr off \<Rightarrow> Inr (if off \<noteq> 0 then off else 0))
      else Inr 0)"

text \<open>\<^verbatim>\<open>executePullRequestImmediately\<close>, from its entry to the request of
  \<^verbatim>\<open>pullKernelImpl\<close>.\<close>

definition pullRequestIssue :: "consumer \<Rightarrow> messageQueue \<Rightarrow> pullAnswers \<Rightarrow> pending" where
  "pullRequestIssue s mq a =
     (case map_of (processQueueTable s) (key mq) of
        None \<Rightarrow> Done s
      | Some p \<Rightarrow>
          if droped (processQueue (heap s p)) then Done s
          else
            (let s1 = modify_row p
                        (\<lambda>r. r\<lparr>processQueue := (processQueue r)\<lparr>lastPullTimestamp := now a\<rparr>\<rparr>) s
             in case subscriptions s1 (topic mq) of
                  None \<Rightarrow> Done (emit (Sleep (pullTimeDelayMillsWhenException (options s1))) s1)
                | Some sd \<Rightarrow>
                    (case readCommitOffset s1 a of
                       Inl e \<Rightarrow> Raised e s1
                     | Inr commitOff \<Rightarrow>
                         (case pullKernelImpl s1 mq
                                 (if postSubscriptionWhenPull (options s1) then subString sd
                                  else None)
                                 (subVersion sd) (nextOffset (heap s1 p)) commitOff a of
                            Threw e s2 \<Rightarrow> Raised e s2
                          | Returned s2 hdr \<Rightarrow> Issued s2 p sd hdr))))"

text \<open>\<^verbatim>\<open>correctTagsOffset(pullRequest)\<close>.\<close>

definition correctTagsOffset :: "consumer \<Rightarrow> nat \<Rightarrow> consumer" where
  "correctTagsOffset s p =
     emit (UpdateOffset (messageQueue (heap s p)) (nextOffset (heap s p)) True) s"

text \<open>\<^verbatim>\<open>executePullRequestImmediately\<close>, from the answer of the broker to its end. \<open>s\<close> is
  the consumer at the time the answer arrives, \<open>p\<close> and \<open>sd\<close> are the local variables
  kept across the request.\<close>

definition pullRequestHandle ::
  "consumer \<Rightarrow> messageQueue \<Rightarrow> nat \<Rightarrow> subscriptionData \<Rightarrow> pullAnswers \<Rightarrow> unit result" where
  "pullRequestHandle s mq p sd a =
     (case pullMessage a of
        Inl e \<Rightarrow> Threw e s
      | Inr pr \<Rightarrow>
          (let s1 = s\<lparr>pullFromWhichNodeTable :=
                        (pullFromWhichNodeTable s)(key mq \<mapsto> suggestWhichBrokerId pr)\<rparr>;
               s2 = modify_row p (\<lambda>r. r\<lparr>nextOffset := nextBeginOffset pr\<rparr>) s1
           in case pullStatus pr of
                FOUND \<Rightarrow>
                  (let msgList = filterByTags sd (msgFoundList pr) in
                   if msgList \<noteq> []
                   then (let lastMsgOffset = toNumber (sint (queueOffset (last msgList)));
                             s3 = emit (EmitMessage msgList) s2
                         in if acked a
                            then Returned
                                   (table_set (key mq) p
                                      (emit (UpdateOffset mq (jsAdd lastMsgOffset 1) False) s3)) ()
                            else Threw ProcessTimeout s3)
                   else Returned (table_set (key mq) p s2) ())
              | NO_NEW_MSG \<Rightarrow> Returned (table_set (key mq) p (correctTagsOffset s2 p)) ()
              | NO_MATCHED_MSG \<Rightarrow> Returned (table_set (key mq) p (correctTagsOffset s2 p)) ()
              | OFFSET_ILLEGAL \<Rightarrow>
                  (let s3 = modify_row p set_droped s2;
                       s4 = emit (Sleep 10000) s3;
                       s5 = emit (UpdateOffset mq (nextOffset (heap s4 p)) False) s4;
                       s6 = emit (Persist mq) s5
                   in if persistOk a
                      then (case removeProcessQueue s6 mq (persistOkOnRemove a) of
                              Threw e s7 \<Rightarrow> Threw e s7
                            | Returned s7 _ \<Rightarrow> Returned (table_set (key mq) p s7) ())
                      else Threw StoreError s6)))"

text \<open>\<^verbatim>\<open>executePullRequestImmediately(messageQueue)\<close> when nothing else runs between the
  request and its answer.\<close>

definition executePullRequestImmediately ::
  "consumer \<Rightarrow> messageQueue \<Rightarrow> pullAnswers \<Rightarrow> unit result" where
  "executePullRequestImmediately s mq a =
     (case pullRequestIssue s mq a of
        Done s1 \<Rightarrow> Returned s1 ()
      | Raised e s1 \<Rightarrow> Threw e s1
      | Issued s1 p sd hdr \<Rightarrow> pullRequestHandle s1 mq p sd a)"

text \<open>\<^verbatim>\<open>pullMessageQueue(messageQueue)\<close>: the loop of the worker. Each iteration uses up one
  record of answers; \<open>None\<close> means that the loop is still running when the answers are
  used up, \<open>Some\<close> that it has left the \<^verbatim>\<open>while\<close>.\<close>

fun pullMessageQueue :: "pullAnswers list \<Rightarrow> consumer \<Rightarrow> messageQueue \<Rightarrow> consumer option" where
  "pullMessageQueue [] s mq = (if has s (key mq) then None else Some s)"
| "pullMessageQueue (a # as) s mq =
     (if has s (key mq)
      then (case executePullRequestImmediately s mq a of
              Returned s1 _ \<Rightarrow> pullMessageQueue as (emit (Sleep (pullInterval (options s1))) s1) mq
            | Threw e s1 \<Rightarrow>
                if inited s1
                then pullMessageQueue as
                       (emit (Sleep (pullTimeDelayMillsWhenException (options s1))) s1) mq
                else pullMessageQueue as s1 mq)
      else Some s)"

text \<open>The body of the \<^verbatim>\<open>while\<close> of \<^verbatim>\<open>pullMessageQueue\<close>, run once: the \<^verbatim>\<open>try\<close> with its
  \<^verbatim>\<open>catch\<close>. \<open>iterations\<close> runs it once for each record of answers.\<close>

definition iteration :: "consumer \<Rightarrow> messageQueue \<Rightarrow> pullAnswers \<Rightarrow> consumer" where
  "iteration s mq a =
     (case executePullRequestImmediately s mq a of
        Returned s1 _ \<Rightarrow> emit (Sleep (pullInterval (options s1))) s1
      | Threw e s1 \<Rightarrow>
          if inited s1 then emit (Sleep (pullTimeDelayMillsWhenException (options s1))) s1
          else s1)"

fun iterations :: "pullAnswers list \<Rightarrow> consumer \<Rightarrow> messageQueue \<Rightarrow> consumer" where
  "iterations [] s mq = s"
| "iterations (a # as) s mq = iterations as (iteration s mq a) mq"

subsection \<open>Rebalance\<close>

text \<open>What the collaborators answer during one run of
  \<^verbatim>\<open>updateProcessQueueTableInRebalance\<close>, for each queue: whether
  \<^verbatim>\<open>persist\<close> succeeds, the offset read from the store, \<^verbatim>\<open>maxOffset\<close>, the time
  that \<^verbatim>\<open>utils.parseDate(...).getTime()\<close> makes of the configured string (\<open>None\<close>: it
  throws), \<^verbatim>\<open>searchOffset\<close>, and the fields of a \<^verbatim>\<open>new ProcessQueue()\<close>.\<close>

record rebalanceAnswers =
  persistOkFor :: "messageQueue \<Rightarrow> bool"
  readOffsetStore :: "messageQueue \<Rightarrow> error + int"
  maxOffset :: "messageQueue \<Rightarrow> error + int"
  parseDate :: "string \<Rightarrow> int option"
  searchOffset :: "messageQueue \<Rightarrow> int \<Rightarrow> error + int"
  newProcessQueue :: processQueue

text \<open>\<^verbatim>\<open>topic.indexOf(MixAll.RETRY_GROUP_TOPIC_PREFIX) === 0\<close>.\<close>

definition isRetryTopic :: "messageQueue \<Rightarrow> bool" where
  "isRetryTopic mq =
     (take (length RETRY_GROUP_TOPIC_PREFIX) (topic mq) = RETRY_GROUP_TOPIC_PREFIX)"

text \<open>A \<^verbatim>\<open>return yield ...\<close> inside the \<^verbatim>\<open>try\<close>: the value of the call, or the
  \<^verbatim>\<open>-1\<close> of the \<^verbatim>\<open>catch\<close> when the call throws.\<close>

definition orCatch :: "error + int \<Rightarrow> int" where
  "orCatch r = (case r of Inl e \<Rightarrow> - 1 | Inr v \<Rightarrow> v)"

text \<open>The body shared by the four first \<^verbatim>\<open>case\<close> labels of the \<^verbatim>\<open>switch\<close>.\<close>

definition fromLastOffset :: "messageQueue \<Rightarrow> rebalanceAnswers \<Rightarrow> int \<Rightarrow> int" where
  "fromLastOffset mq a lastOffset =
     (if lastOffset \<ge> 0 then lastOffset
      else if lastOffset = - 1
           then (if isRetryTopic mq then 0 else orCatch (maxOffset a mq))
           else - 1)"

definition fromTimestamp :: "consumer \<Rightarrow> messageQueue \<Rightarrow> rebalanceAnswers \<Rightarrow> int \<Rightarrow> int" where
  "fromTimestamp s mq a lastOffset =
     (if lastOffset \<ge> 0 then lastOffset
      else if lastOffset = - 1
           then (if isRetryTopic mq then orCatch (maxOffset a mq)
                 else (case parseDate a (consumeTimestamp (options s)) of
                         None \<Rightarrow> - 1
                       | Some timestamp \<Rightarrow> orCatch (searchOffset a mq timestamp)))
           else - 1)"

text \<open>\<^verbatim>\<open>computePullFromWhere(messageQueue)\<close>.\<close>

definition computePullFromWhere :: "consumer \<Rightarrow> messageQueue \<Rightarrow> rebalanceAnswers \<Rightarrow> int" where
  "computePullFromWhere s mq a =
     (case readOffsetStore a mq of
        Inl e \<Rightarrow> - 1
      | Inr lastOffset \<Rightarrow>
          (case consumeFromWhere (options s) of
             CONSUME_FROM_LAST_OFFSET_AND_FROM_MIN_WHEN_BOOT_FIRST \<Rightarrow> fromLastOffset mq a lastOffset
           | CONSUME_FROM_MIN_OFFSET \<Rightarrow> fromLastOffset mq a lastOffset
           | CONSUME_FROM_MAX_OFFSET \<Rightarrow> fromLastOffset mq a lastOffset
           | CONSUME_FROM_LAST_OFFSET \<Rightarrow> fromLastOffset mq a lastOffset
           | CONSUME_FROM_FIRST_OFFSET \<Rightarrow> (if lastOffset \<ge> 0 then lastOffset else 0)
           | CONSUME_FROM_TIMESTAMP \<Rightarrow> fromTimestamp s mq a lastOffset))"

text \<open>The two places of the first loop that drop a queue: set the flag, call
  \<^verbatim>\<open>removeUnnecessaryMessageQueue\<close>, and when it answers \<^verbatim>\<open>true\<close> delete the key.\<close>

definition dropAndRemove ::
  "rebalanceAnswers \<Rightarrow> string \<Rightarrow> nat \<Rightarrow> consumer \<Rightarrow> bool \<Rightarrow> bool result" where
  "dropAndRemove a k p s changed =
     (let mq = messageQueue (heap s p) in
      case removeUnnecessaryMessageQueue (modify_row p set_droped s) mq (persistOkFor a mq) of
        Threw e s1 \<Rightarrow> Threw e s1
      | Returned s1 removed \<Rightarrow>
          if removed then Returned (table_delete k s1) True else Returned s1 changed)"

text \<open>The first loop of \<^verbatim>\<open>updateProcessQueueTableInRebalance\<close>, over the keys of the
  table. A key without a row is deleted, and reading \<^verbatim>\<open>obj.messageQueue\<close> then
  throws.\<close>

fun deleteUnnecessaryQueues ::
  "rebalanceAnswers \<Rightarrow> string \<Rightarrow> messageQueue list \<Rightarrow> string list \<Rightarrow> consumer \<Rightarrow> bool
     \<Rightarrow> bool result" where
  "deleteUnnecessaryQueues a t mqSet [] s changed = Returned s changed"
| "deleteUnnecessaryQueues a t mqSet (k # ks) s changed =
     (case map_of (processQueueTable s) k of
        None \<Rightarrow> Threw TypeError (table_delete k s)
      | Some p \<Rightarrow>
          (if t = topic (messageQueue (heap s p))
           then (if \<not> list_ex (\<lambda>mq. key mq = key (messageQueue (heap s p))) mqSet
                 then (case dropAndRemove a k p s changed of
                         Threw e s1 \<Rightarrow> Threw e s1
                       | Returned s1 c \<Rightarrow> deleteUnnecessaryQueues a t mqSet ks s1 c)
                 else deleteUnnecessaryQueues a t mqSet ks s changed)
           else if isPullExpired (processQueue (heap s p)) \<and> consumeType = CONSUME_PASSIVELY
                then (case dropAndRemove a k p s changed of
                        Threw e s1 \<Rightarrow> Threw e s1
                      | Returned s1 c \<Rightarrow> deleteUnnecessaryQueues a t mqSet ks s1 c)
                else deleteUnnecessaryQueues a t mqSet ks s changed))"

text \<open>The body of the second loop: a queue of \<^verbatim>\<open>mqSet\<close> without a row gets a new row
  with a new ProcessQueue, and its worker is started.\<close>

definition addNewQueue ::
  "rebalanceAnswers \<Rightarrow> messageQueue \<Rightarrow> consumer \<Rightarrow> bool \<Rightarrow> consumer \<times> bool" where
  "addNewQueue a mq s changed =
     (if has s (key mq) then (s, changed)
      else (let off = computePullFromWhere s mq a in
            if has s (key mq) then (s, changed)
            else if off \<ge> 0
                 then (let p = nextAddr s;
                           s1 = s\<lparr>heap := (heap s)
                                   (p := \<lparr>messageQueue = mq, processQueue = newProcessQueue a,
                                          nextOffset = off, row_droped = False\<rparr>),
                                  nextAddr := Suc p\<rparr>
                       in (emit (StartPull mq) (table_set (key mq) p s1), True))
                 else (s, changed)))"

fun addNewQueues ::
  "rebalanceAnswers \<Rightarrow> messageQueue list \<Rightarrow> consumer \<Rightarrow> bool \<Rightarrow> consumer \<times> bool" where
  "addNewQueues a [] s changed = (s, changed)"
| "addNewQueues a (mq # mqs) s changed =
     (case addNewQueue a mq s changed of (s1, c) \<Rightarrow> addNewQueues a mqs s1 c)"

text \<open>\<^verbatim>\<open>updateProcessQueueTableInRebalance(topic, mqSet)\<close>.\<close>

definition updateProcessQueueTableInRebalance ::
  "consumer \<Rightarrow> string \<Rightarrow> messageQueue list \<Rightarrow> rebalanceAnswers \<Rightarrow> bool result" where
  "updateProcessQueueTableInRebalance s t mqSet a =
     (case deleteUnnecessaryQueues a t mqSet (map fst (processQueueTable s)) s False of
        Threw e s1 \<Rightarrow> Threw e s1
      | Returned s1 changed \<Rightarrow>
          (case addNewQueues a mqSet s1 changed of (s2, c) \<Rightarrow> Returned s2 c))"

subsection \<open>Observing a run\<close>

fun result_state :: "'a result \<Rightarrow> consumer" where
  "result_state (Returned s _) = s"
| "result_state (Threw _ s) = s"

fun pending_state :: "pending \<Rightarrow> consumer" where
  "pending_state (Done s) = s"
| "pending_state (Raised _ s) = s"
| "pending_state (Issued s _ _ _) = s"

text \<open>The header of the request that is waiting for its answer.\<close>

fun issued_header :: "pending \<Rightarrow> requestHeader option" where
  "issued_header (Issued s p sd hdr) = Some hdr"
| "issued_header _ = None"

text \<open>The batches given to the \<^verbatim>\<open>message\<close> listeners, and the calls of
  \<^verbatim>\<open>updateOffset\<close>, in the order of the trace.\<close>

fun batchOf :: "event \<Rightarrow> message list list" where
  "batchOf (EmitMessage ms) = [ms]"
| "batchOf _ = []"

definition delivered :: "consumer \<Rightarrow> message list list" where
  "delivered s = concat (map batchOf (trace s))"

fun updateOf :: "event \<Rightarrow> (messageQueue \<times> int \<times> bool) list" where
  "updateOf (UpdateOffset mq off inc) = [(mq, off, inc)]"
| "updateOf _ = []"

definition offsetUpdates :: "consumer \<Rightarrow> (messageQueue \<times> int \<times> bool) list" where
  "offsetUpdates s = concat (map updateOf (trace s))"

text \<open>The dropped flag of the row at an address.\<close>

definition flag :: "consumer \<Rightarrow> nat \<Rightarrow> bool" where
  "flag s q = droped (processQueue (heap s q))"

text \<open>The condition under which the first loop of the rebalance drops a row, and the calls
  it then makes.\<close>

definition unnecessary :: "string \<Rightarrow> messageQueue list \<Rightarrow> pullRequest \<Rightarrow> bool" where
  "unnecessary t mqSet r =
     (if t = topic (messageQueue r) then key (messageQueue r) \<notin> key ` set mqSet
      else isPullExpired (processQueue r))"

definition removalEvents :: "pullRequest \<Rightarrow> event list" where
  "removalEvents r = [Persist (messageQueue r), RemoveOffset (messageQueue r)]"

subsection \<open>A consumer with one queue\<close>

definition mq0 :: messageQueue where
  "mq0 = \<lparr>topic = ''T'', brokerName = ''b'', queueId = 0, key = ''T@b@0''\<rparr>"

definition mqRetry :: messageQueue where
  "mqRetry = \<lparr>topic = ''%RETRY%G'', brokerName = ''b'', queueId = 0, key = ''%RETRY%G@b@0''\<rparr>"

definition opts0 :: options where
  "opts0 = \<lparr>isBroadcast = False, brokerSuspendMaxTimeMillis = 15000,
     pullTimeDelayMillsWhenException = 3000, consumerTimeoutMillisWhenSuspend = 30000,
     consumerGroup = ''G'', consumeFromWhere = CONSUME_FROM_LAST_OFFSET,
     consumeTimestamp = ''20131223171201'', pullInterval = 0, pullBatchSize = 32,
     postSubscriptionWhenPull = True\<rparr>"

definition row0 :: pullRequest where
  "row0 = \<lparr>messageQueue = mq0,
     processQueue = \<lparr>lastPullTimestamp = 0, droped = False, isPullExpired = False\<rparr>,
     nextOffset = 5, row_droped = False\<rparr>"

definition sd0 :: subscriptionData where
  "sd0 = \<lparr>sd_topic = ''T'', subString = Some ''A||B'', classFilterMode = False,
     tagsSet = [''A'', ''B''], codeSet = [65, 66], subVersion = 1\<rparr>"

definition consumer0 :: consumer where
  "consumer0 = \<lparr>options = opts0, subscriptions = [''T'' \<mapsto> sd0],
     processQueueTable = [(''T@b@0'', 0)], heap = (\<lambda>_. row0), nextAddr = 1,
     pullFromWhichNodeTable = Map.empty, inited = True, trace = []\<rparr>"

definition mq1 :: messageQueue where
  "mq1 = \<lparr>topic = ''T'', brokerName = ''b'', queueId = 1, key = ''T@b@1''\<rparr>"

definition mqU :: messageQueue where
  "mqU = \<lparr>topic = ''U'', brokerName = ''b'', queueId = 0, key = ''U@b@0''\<rparr>"

definition rowOf :: "messageQueue \<Rightarrow> bool \<Rightarrow> pullRequest" where
  "rowOf mq expired = \<lparr>messageQueue = mq,
     processQueue = \<lparr>lastPullTimestamp = 0, droped = False, isPullExpired = expired\<rparr>,
     nextOffset = 5, row_droped = False\<rparr>"

definition consumer3 :: consumer where
  "consumer3 = consumer0\<lparr>
     processQueueTable := [(''T@b@0'', 0), (''T@b@1'', 1), (''U@b@0'', 2)],
     heap := (\<lambda>_. row0)(0 := rowOf mq0 True, 1 := rowOf mq1 False, 2 := rowOf mqU True),
     nextAddr := 3\<rparr>"

definition msgA :: message where
  "msgA = \<lparr>tags = Some ''A'', queueOffset = 5\<rparr>"

definition msgC :: message where
  "msgC = \<lparr>tags = Some ''C'', queueOffset = 6\<rparr>"

definition msgN :: message where
  "msgN = \<lparr>tags = None, queueOffset = 7\<rparr>"

text \<open>Answers of the collaborators: the memory holds no offset (\<open>- 1\<close>), the master is
  found, the broker answers \<open>pr\<close>, and the listener acknowledges at once or never.\<close>

definition answersWith :: "pullResult \<Rightarrow> bool \<Rightarrow> pullAnswers" where
  "answersWith pr ack = \<lparr>now = 1000, readOffsetMemory = Inr (- 1),
     findBroker = (\<lambda>_ _. Some \<lparr>brokerAddr = ''addr'', slave = False\<rparr>),
     updateRouteOk = True, findBrokerAgain = (\<lambda>_ _. None),
     pullMessage = Inr pr, ackDelay = (if ack then Some 0 else None), persistOk = True,
     persistOkOnRemove = True\<rparr>"

definition foundResult :: pullResult where
  "foundResult = \<lparr>pullStatus = FOUND, nextBeginOffset = 8, suggestWhichBrokerId = 0,
     msgFoundList = [msgA, msgC, msgN]\<rparr>"



definition illegalResult :: pullResult where
  "illegalResult = \<lparr>pullStatus = OFFSET_ILLEGAL, nextBeginOffset = 100,
     suggestWhichBrokerId = 0, msgFoundList = []\<rparr>"

text \<open>The broker answers OFFSET\_ILLEGAL, and the \<^verbatim>\<open>persist\<close> inside
  \<^verbatim>\<open>removeUnnecessaryMessageQueue\<close> throws.\<close>

definition answersRemoveFails :: pullAnswers where
  "answersRemoveFails = \<lparr>now = 1000, readOffsetMemory = Inr (- 1),
     findBroker = (\<lambda>_ _. Some \<lparr>brokerAddr = ''addr'', slave = False\<rparr>),
     updateRouteOk = True, findBrokerAgain = (\<lambda>_ _. None),
     pullMessage = Inr illegalResult, ackDelay = None, persistOk = True,
     persistOkOnRemove = False\<rparr>"

definition rebalanceOk :: rebalanceAnswers where
  "rebalanceOk = \<lparr>persistOkFor = (\<lambda>_. True), readOffsetStore = (\<lambda>_. Inr (- 1)),
     maxOffset = (\<lambda>_. Inr 40), parseDate = (\<lambda>_. Some 1387818721000),
     searchOffset = (\<lambda>_ _. Inr 30),
     newProcessQueue = \<lparr>lastPullTimestamp = 2000, droped = False, isPullExpired = False\<rparr>\<rparr>"

text \<open>The consumer after a pull was issued; after a rebalance with an empty assignment
  that ran while the request was under way; and after a pull answered OFFSET\_ILLEGAL.\<close>

definition consumerIssued :: consumer where
  "consumerIssued = pending_state (pullRequestIssue consumer0 mq0 (answersWith foundResult True))"

definition consumerDropped :: consumer where
  "consumerDropped =
     result_state (updateProcessQueueTableInRebalance consumerIssued ''T'' [] rebalanceOk)"

definition consumerIllegal :: consumer where
  "consumerIllegal =
     result_state (executePullRequestImmediately consumer0 mq0 (answersWith illegalResult True))"

definition header0 :: requestHeader where
  "header0 = \<lparr>rh_consumerGroup = ''G'', rh_topic = ''T'', rh_queueId = 0, rh_queueOffset = 5,
        maxMsgNums = 32, sysFlag = 6, commitOffset = - 1, suspendTimeoutMillis = 15000,
        subscription = Some ''A||B'', rh_subVersion = 1\<rparr>"

section \<open>Properties\<close>

subsection \<open>Subscription expressions\<close>

lemma split_bars_not_Nil: "split_bars cur e \<noteq> []"
  by (induction cur e rule: split_bars.induct) auto

lemma join_bars_Cons: "ys \<noteq> [] \<Longrightarrow> join_bars (x # ys) = x @ ''||'' @ join_bars ys"
  by (cases ys) simp_all

lemma join_split_bars: "join_bars (split_bars cur e) = cur @ e"
  by (induction cur e rule: split_bars.induct)
     (simp_all add: join_bars_Cons split_bars_not_Nil)

lemma split_bars_examples:
  "split_bars [] ''a|||b'' = [''a'', ''|b'']"
  "split_bars [] ''|'' = [''|'']"
  "split_bars [] ''||||'' = [[], [], []]"
  "split_bars [] ''a||b||'' = [''a'', ''b'', []]"
  by simp_all

lemma foldl_push_tag:
  "foldl push_tag sd toks =
     sd\<lparr>tagsSet := tagsSet sd @ filter (\<lambda>t. t \<noteq> []) (map trim toks),
        codeSet := codeSet sd @ map hashCode (filter (\<lambda>t. t \<noteq> []) (map trim toks))\<rparr>"
proof (induction toks arbitrary: sd)
  case Nil
  then show ?case by simp
next
  case (Cons tok toks)
  show ?case
    by (simp add: Cons.IH) (simp add: push_tag_def Let_def)
qed

lemma buildSubscriptionData_expression:
  assumes "e \<noteq> ''*''" and "e \<noteq> []"
  shows "buildSubscriptionData g t (Some e) ts =
     Inr \<lparr>sd_topic = t, subString = Some e, classFilterMode = False,
          tagsSet = filter (\<lambda>t. t \<noteq> []) (map trim (split_bars [] e)),
          codeSet = map hashCode (filter (\<lambda>t. t \<noteq> []) (map trim (split_bars [] e))),
          subVersion = ts\<rparr>"
  using assms by (simp add: buildSubscriptionData_def Let_def split_bars_not_Nil foldl_push_tag)

lemma buildSubscriptionData_all:
  assumes "sub = None \<or> sub = Some ''*'' \<or> sub = Some []"
  shows "buildSubscriptionData g t sub ts =
     Inr \<lparr>sd_topic = t, subString = Some ''*'', classFilterMode = False,
          tagsSet = [], codeSet = [], subVersion = ts\<rparr>"
  using assms by (auto simp add: buildSubscriptionData_def Let_def)

lemma buildSubscriptionData_tags_not_empty:
  "buildSubscriptionData g t sub ts = Inr sd \<Longrightarrow> [] \<notin> set (tagsSet sd)"
  by (cases sub)
     (auto simp add: buildSubscriptionData_def Let_def split_bars_not_Nil foldl_push_tag
        split: if_splits)

lemma buildSubscriptionData_classFilterMode:
  "buildSubscriptionData g t sub ts = Inr sd \<Longrightarrow> \<not> classFilterMode sd"
  by (cases sub)
     (auto simp add: buildSubscriptionData_def Let_def split_bars_not_Nil foldl_push_tag
        split: if_splits)

lemma sd0_built: "buildSubscriptionData ''G'' ''T'' (Some ''A||B'') 1 = Inr sd0"
  by (simp add: buildSubscriptionData_def Let_def push_tag_def trim_def isWhiteSpace_def
        hashCode_def sd0_def)

text \<open>
  Claim C10. For every string given as expression, \<^verbatim>\<open>buildSubscriptionData\<close> returns a
  subscription and does not throw: \<^verbatim>\<open>split\<close> yields at least one piece, so the branch that
  throws is never taken. When every piece is empty after trimming, as for \<^verbatim>\<open>'||'\<close>, the
  \<open>tagsSet\<close> is empty, and the tag filter of the pull then keeps every message.
\<close>

theorem buildSubscriptionData_never_throws:
  "split_bars [] e \<noteq> [] \<and>
   (\<exists>sd. buildSubscriptionData g t (Some e) ts = Inr sd \<and>
      ((\<forall>tok \<in> set (split_bars [] e). trim tok = []) \<longrightarrow>
         tagsSet sd = [] \<and> (\<forall>msgs. filterByTags sd msgs = msgs)))"
proof -
  have "e = ''*'' \<or> e = [] \<or> (e \<noteq> ''*'' \<and> e \<noteq> [])" by blast
  then have "\<exists>sd. buildSubscriptionData g t (Some e) ts = Inr sd \<and>
      ((\<forall>tok \<in> set (split_bars [] e). trim tok = []) \<longrightarrow>
         tagsSet sd = [] \<and> (\<forall>msgs. filterByTags sd msgs = msgs))"
  proof (elim disjE)
    assume "e = ''*''"
    then show ?thesis
      by (simp add: buildSubscriptionData_all filterByTags_def)
  next
    assume "e = []"
    then show ?thesis
      by (simp add: buildSubscriptionData_all filterByTags_def)
  next
    assume ne: "e \<noteq> ''*'' \<and> e \<noteq> []"
    have "(\<forall>tok \<in> set (split_bars [] e). trim tok = []) \<Longrightarrow>
            filter (\<lambda>t. t \<noteq> []) (map trim (split_bars [] e)) = []"
      by (simp add: filter_empty_conv)
    with ne show ?thesis
      by (simp add: buildSubscriptionData_expression filterByTags_def)
  qed
  then show ?thesis by (simp add: split_bars_not_Nil)
qed

text \<open>Claim C10 at the expression \<^verbatim>\<open>'||'\<close>: both pieces are empty, the subscription has no
  tag, and a batch of three messages passes the filter whole.\<close>

theorem buildSubscriptionData_never_throws_witness:
  "map trim (split_bars [] ''||'') = [[], []] \<and>
   (\<exists>sd. buildSubscriptionData ''G'' ''T'' (Some ''||'') 1 = Inr sd \<and> tagsSet sd = [] \<and>
         filterByTags sd [msgA, msgC, msgN] = [msgA, msgC, msgN])"
proof -
  have h: "map trim (split_bars [] ''||'') = [[], []]"
    by (simp add: trim_def)
  then have "\<forall>tok \<in> set (split_bars [] ''||''). trim tok = []"
    by simp
  then show ?thesis
    using h buildSubscriptionData_never_throws [of "''||''" "''G''" "''T''" 1] by auto
qed

text \<open>
  Claim C9, as amended. \<^verbatim>\<open>buildSubscriptionData\<close> maps \<^verbatim>\<open>null\<close>, the empty string and
  \<^verbatim>\<open>'*'\<close> to the expression \<^verbatim>\<open>'*'\<close> with empty \<open>tagsSet\<close> and \<open>codeSet\<close>. For any other
  expression it splits on \<^verbatim>\<open>'||'\<close>, trims each piece, and puts every non-empty trimmed piece
  into \<open>tagsSet\<close>, in order and as often as it occurs, and its hash at the same position into
  \<open>codeSet\<close>. It returns a subscription in every case: no expression is rejected.
\<close>

theorem buildSubscriptionData_cases:
  "(sub = None \<or> sub = Some ''*'' \<or> sub = Some [] \<longrightarrow>
      buildSubscriptionData g t sub ts =
        Inr \<lparr>sd_topic = t, subString = Some ''*'', classFilterMode = False,
             tagsSet = [], codeSet = [], subVersion = ts\<rparr>) \<and>
   (sub = Some e \<and> e \<noteq> ''*'' \<and> e \<noteq> [] \<longrightarrow>
      buildSubscriptionData g t sub ts =
        Inr \<lparr>sd_topic = t, subString = Some e, classFilterMode = False,
             tagsSet = filter (\<lambda>tok. tok \<noteq> []) (map trim (split_bars [] e)),
             codeSet = map hashCode (filter (\<lambda>tok. tok \<noteq> []) (map trim (split_bars [] e))),
             subVersion = ts\<rparr>)"
  using buildSubscriptionData_all [of sub g t ts] buildSubscriptionData_expression [of e g t ts]
  by blast

text \<open>Claim C9 as amended, at the expression \<^verbatim>\<open>' A ||B||'\<close> and at \<^verbatim>\<open>null\<close>.\<close>

theorem buildSubscriptionData_cases_witness:
  "Some '' A ||B||'' = Some '' A ||B||'' \<and> '' A ||B||'' \<noteq> ''*'' \<and> '' A ||B||'' \<noteq> [] \<and>
   buildSubscriptionData ''G'' ''T'' (Some '' A ||B||'') 1 =
     Inr \<lparr>sd_topic = ''T'', subString = Some '' A ||B||'', classFilterMode = False,
          tagsSet = [''A'', ''B''], codeSet = [65, 66], subVersion = 1\<rparr> \<and>
   buildSubscriptionData ''G'' ''T'' None 1 =
     Inr \<lparr>sd_topic = ''T'', subString = Some ''*'', classFilterMode = False,
          tagsSet = [], codeSet = [], subVersion = 1\<rparr>"
  using buildSubscriptionData_cases [of "Some '' A ||B||''" "''G''" "''T''" 1 "'' A ||B||''"]
    buildSubscriptionData_cases [of None "''G''" "''T''" 1 "[]"]
  by (simp add: trim_def isWhiteSpace_def hashCode_def)

text \<open>
  Claim C9 as stated fails. The expression \<^verbatim>\<open>'||'\<close>, which has no tag at all, is not rejected
  with a parse error: a subscription without tags is returned. And the tokens of \<open>tagsSet\<close>
  are not made distinct: \<^verbatim>\<open>'a||a'\<close> gives the tag \<^verbatim>\<open>a\<close> twice.
\<close>

theorem buildSubscriptionData_counterexample:
  "buildSubscriptionData ''G'' ''T'' (Some ''||'') 1 =
     Inr \<lparr>sd_topic = ''T'', subString = Some ''||'', classFilterMode = False,
          tagsSet = [], codeSet = [], subVersion = 1\<rparr> \<and>
   buildSubscriptionData ''G'' ''T'' (Some ''a||a'') 1 =
     Inr \<lparr>sd_topic = ''T'', subString = Some ''a||a'', classFilterMode = False,
          tagsSet = [''a'', ''a''], codeSet = [97, 97], subVersion = 1\<rparr>"
  by (simp add: buildSubscriptionData_def Let_def push_tag_def trim_def isWhiteSpace_def
        hashCode_def)

subsection \<open>What a pull delivers\<close>

lemma delivered_emit [simp]: "delivered (emit e s) = delivered s @ batchOf e"
  by (simp add: delivered_def emit_def)

lemma delivered_other [simp]:
  "delivered (modify_row p f s) = delivered s"
  "delivered (table_set k p s) = delivered s"
  "delivered (table_delete k s) = delivered s"
  "delivered (s\<lparr>pullFromWhichNodeTable := n\<rparr>) = delivered s"
  by (simp_all add: delivered_def modify_row_def table_set_def table_delete_def)

lemma delivered_pullKernelImpl:
  "delivered (result_state (pullKernelImpl s mq se sv off co a)) = delivered s"
  by (simp add: pullKernelImpl_def findBrokerAddress_def Let_def split: option.splits result.splits)

lemma delivered_pullRequestIssue:
  "delivered (pending_state (pullRequestIssue s mq a)) = delivered s"
proof (cases "map_of (processQueueTable s) (key mq)")
  case None
  then show ?thesis by (simp add: pullRequestIssue_def)
next
  case (Some p)
  define s1 where "s1 = modify_row p
      (\<lambda>r. r\<lparr>processQueue := (processQueue r)\<lparr>lastPullTimestamp := now a\<rparr>\<rparr>) s"
  have d1: "delivered s1 = delivered s" by (simp add: s1_def)
  have k: "delivered (pending_state (case r of Threw e s2 \<Rightarrow> Raised e s2
                          | Returned s2 hdr \<Rightarrow> Issued s2 p sd hdr)) = delivered (result_state r)" for r sd
    by (cases r) simp_all
  show ?thesis
    using Some
    by (simp add: pullRequestIssue_def Let_def s1_def [symmetric] k d1 delivered_pullKernelImpl
          split: option.splits sum.splits)
qed

lemma delivered_removeProcessQueue:
  "delivered (result_state (removeProcessQueue s mq ok)) = delivered s"
  by (simp add: removeProcessQueue_def removeUnnecessaryMessageQueue_def Let_def split: option.splits)

lemma delivered_pullRequestHandle:
  "delivered (result_state (pullRequestHandle s mq p sd a)) =
     delivered s @
       (case pullMessage a of
          Inl e \<Rightarrow> []
        | Inr pr \<Rightarrow>
            if pullStatus pr = FOUND \<and> filterByTags sd (msgFoundList pr) \<noteq> []
            then [filterByTags sd (msgFoundList pr)] else [])"
proof (cases "pullMessage a")
  case (Inl e)
  then show ?thesis by (simp add: pullRequestHandle_def)
next
  case (Inr pr)
  have k: "delivered (result_state (case r of Threw e s7 \<Rightarrow> Threw e s7
             | Returned s7 u \<Rightarrow> Returned (table_set (key mq) p s7) ())) = delivered (result_state r)"
    for r :: "unit result"
    by (cases r) simp_all
  show ?thesis
    using Inr
    by (cases "pullStatus pr")
       (simp_all add: pullRequestHandle_def Let_def correctTagsOffset_def k
          delivered_removeProcessQueue)
qed

lemma pullRequestIssue_subscription:
  "pullRequestIssue s mq a = Issued s1 p sd hdr \<Longrightarrow> subscriptions s (topic mq) = Some sd"
  by (auto simp add: pullRequestIssue_def Let_def modify_row_def
        split: option.splits sum.splits result.splits if_splits)

lemma delivered_executePullRequestImmediately:
  assumes "subscriptions s (topic mq) = Some sd"
  shows "\<exists>bs. delivered (result_state (executePullRequestImmediately s mq a)) = delivered s @ bs \<and>
     (bs = [] \<or> (\<exists>pr. pullMessage a = Inr pr \<and> bs = [filterByTags sd (msgFoundList pr)]))"
proof (cases "pullRequestIssue s mq a")
  case (Done s1)
  then show ?thesis
    using delivered_pullRequestIssue [of s mq a]
    by (simp add: executePullRequestImmediately_def)
next
  case (Raised e s1)
  then show ?thesis
    using delivered_pullRequestIssue [of s mq a]
    by (simp add: executePullRequestImmediately_def)
next
  case (Issued s1 p sd' hdr)
  then have sd': "sd' = sd"
    using assms pullRequestIssue_subscription by fastforce
  have d: "delivered s1 = delivered s"
    using delivered_pullRequestIssue [of s mq a] Issued by simp
  show ?thesis
    using Issued
    by (auto simp add: executePullRequestImmediately_def delivered_pullRequestHandle sd' d
          split: sum.splits)
qed

lemma filterByTags_member:
  assumes "[] \<notin> set (tagsSet sd)" and "tagsSet sd \<noteq> []" and "\<not> classFilterMode sd"
  shows "filterByTags sd msgs = filter (\<lambda>m. tags m \<in> Some ` set (tagsSet sd)) msgs"
proof -
  have "tagMatches sd m = (tags m \<in> Some ` set (tagsSet sd))" for m
    using assms(1) by (cases "tags m") (auto simp add: tagMatches_def)
  then have "tagMatches sd = (\<lambda>m. tags m \<in> Some ` set (tagsSet sd))"
    by (simp add: fun_eq_iff)
  then show ?thesis
    using assms by (simp add: filterByTags_def)
qed

text \<open>
  Claim C8. For a subscription made by \<^verbatim>\<open>buildSubscriptionData\<close> whose \<open>tagsSet\<close> is not
  empty (its class-filter mode is off), the filter of the FOUND branch keeps exactly the
  messages whose \<open>tags\<close> is a member of \<open>tagsSet\<close>, and every batch that a pull gives to
  the listeners is the list fetched from the broker filtered so: no message with another
  tag, or without one, reaches the user.
\<close>

theorem tag_filter_exact:
  assumes "buildSubscriptionData g t sub ts = Inr sd"
    and "tagsSet sd \<noteq> []"
    and "subscriptions s (topic mq) = Some sd"
  shows "filterByTags sd msgs = filter (\<lambda>m. tags m \<in> Some ` set (tagsSet sd)) msgs \<and>
    (\<exists>bs. delivered (result_state (executePullRequestImmediately s mq a)) = delivered s @ bs \<and>
       (\<forall>ms \<in> set bs.
          (\<forall>m \<in> set ms. tags m \<in> Some ` set (tagsSet sd)) \<and>
          (\<exists>pr. pullMessage a = Inr pr \<and>
             ms = filter (\<lambda>m. tags m \<in> Some ` set (tagsSet sd)) (msgFoundList pr))))"
proof -
  have f: "filterByTags sd xs = filter (\<lambda>m. tags m \<in> Some ` set (tagsSet sd)) xs" for xs
    using assms(1,2) buildSubscriptionData_tags_not_empty buildSubscriptionData_classFilterMode
    by (intro filterByTags_member) blast+
  obtain bs where bs: "delivered (result_state (executePullRequestImmediately s mq a)) = delivered s @ bs"
    and c: "bs = [] \<or> (\<exists>pr. pullMessage a = Inr pr \<and> bs = [filterByTags sd (msgFoundList pr)])"
    using delivered_executePullRequestImmediately [OF assms(3)] by blast
  have "\<forall>ms \<in> set bs.
          (\<forall>m \<in> set ms. tags m \<in> Some ` set (tagsSet sd)) \<and>
          (\<exists>pr. pullMessage a = Inr pr \<and>
             ms = filter (\<lambda>m. tags m \<in> Some ` set (tagsSet sd)) (msgFoundList pr))"
    using c by (auto simp add: f)
  with bs f show ?thesis by blast
qed

lemma executePull_found0:
  "delivered (result_state (executePullRequestImmediately consumer0 mq0 (answersWith foundResult True))) = [[msgA]]"
  by (simp add: delivered_def executePullRequestImmediately_def pullRequestIssue_def pullRequestHandle_def
        consumer0_def mq0_def answersWith_def foundResult_def row0_def opts0_def sd0_def msgA_def msgC_def msgN_def
        modify_row_def emit_def table_set_def pullKernelImpl_def findBrokerAddress_def readCommitOffset_def
        recalculatePullFromWhichNode_def messageModelClustering_def Let_def buildSysFlag_def MASTER_ID_def
        filterByTags_def tagMatches_def)

text \<open>Claim C8 for the tags A and B: of the fetched messages with tag A, with tag C and
  without tag, the batch delivered holds the first only.\<close>

theorem tag_filter_exact_witness:
  "buildSubscriptionData ''G'' ''T'' (Some ''A||B'') 1 = Inr sd0 \<and> tagsSet sd0 \<noteq> [] \<and>
   subscriptions consumer0 (topic mq0) = Some sd0 \<and>
   filterByTags sd0 [msgA, msgC, msgN] = [msgA] \<and>
   delivered (result_state (executePullRequestImmediately consumer0 mq0 (answersWith foundResult True)))
     = [[msgA]]"
proof -
  have h1: "buildSubscriptionData ''G'' ''T'' (Some ''A||B'') 1 = Inr sd0" by (rule sd0_built)
  have h2: "tagsSet sd0 \<noteq> []" by (simp add: sd0_def)
  have h3: "subscriptions consumer0 (topic mq0) = Some sd0" by (simp add: consumer0_def mq0_def)
  have "filterByTags sd0 [msgA, msgC, msgN] = [msgA]"
    using tag_filter_exact [OF h1 h2 h3, of "[msgA, msgC, msgN]"]
    by (simp add: sd0_def msgA_def msgC_def msgN_def image_iff)
  then show ?thesis
    using h1 h2 h3 executePull_found0 by simp
qed

subsection \<open>The request and the offsets of a pull\<close>

lemma offsetUpdates_emit [simp]: "offsetUpdates (emit e s) = offsetUpdates s @ updateOf e"
  by (simp add: offsetUpdates_def emit_def)

lemma offsetUpdates_other [simp]:
  "offsetUpdates (modify_row p f s) = offsetUpdates s"
  "offsetUpdates (table_set k p s) = offsetUpdates s"
  "offsetUpdates (table_delete k s) = offsetUpdates s"
  "offsetUpdates (s\<lparr>pullFromWhichNodeTable := n\<rparr>) = offsetUpdates s"
  by (simp_all add: offsetUpdates_def modify_row_def table_set_def table_delete_def)

lemma trace_other [simp]:
  "trace (modify_row p f s) = trace s"
  "trace (table_set k p s) = trace s"
  "trace (table_delete k s) = trace s"
  "trace (emit e s) = trace s @ [e]"
  by (simp_all add: modify_row_def table_set_def table_delete_def emit_def)

lemma options_other [simp]:
  "options (modify_row p f s) = options s"
  "options (table_set k p s) = options s"
  "options (table_delete k s) = options s"
  "options (emit e s) = options s"
  by (simp_all add: modify_row_def table_set_def table_delete_def emit_def)

lemma pullKernelImpl_Returned:
  assumes "pullKernelImpl s mq se sv off co a = Returned s2 hdr"
  shows "commitOffset hdr = co \<and> rh_queueOffset hdr = off \<and>
         (odd (sysFlag hdr) \<longrightarrow> 0 < co) \<and>
         offsetUpdates s2 = offsetUpdates s \<and> options s2 = options s \<and>
         trace s2 \<noteq> [] \<and>
         (\<exists>addr. last (trace s2) = PullMessage addr hdr (consumerTimeoutMillisWhenSuspend (options s)))"
  using assms
  by (auto simp add: pullKernelImpl_def findBrokerAddress_def Let_def buildSysFlag_def
        clearCommitOffsetFlag_def
        split: option.splits result.splits if_splits)

lemma offsetUpdates_pullKernelImpl:
  "offsetUpdates (result_state (pullKernelImpl s mq se sv off co a)) = offsetUpdates s"
  by (simp add: pullKernelImpl_def findBrokerAddress_def Let_def split: option.splits result.splits)

lemma pullRequestIssue_Issued:
  assumes "pullRequestIssue s mq a = Issued s1 p sd hdr"
  shows "readCommitOffset s a = Inr (commitOffset hdr) \<and>
         (odd (sysFlag hdr) \<longrightarrow> 0 < commitOffset hdr) \<and>
         offsetUpdates s1 = offsetUpdates s \<and> options s1 = options s \<and>
         trace s1 \<noteq> [] \<and>
         (\<exists>addr. last (trace s1) = PullMessage addr hdr (consumerTimeoutMillisWhenSuspend (options s)))"
proof -
  define s0 where "s0 = modify_row p
      (\<lambda>r. r\<lparr>processQueue := (processQueue r)\<lparr>lastPullTimestamp := now a\<rparr>\<rparr>) s"
  have rc: "readCommitOffset s0 a = readCommitOffset s a"
    by (simp add: readCommitOffset_def messageModelClustering_def s0_def)
  from assms obtain se co where
    k: "pullKernelImpl s0 mq se (subVersion sd) (nextOffset (heap s0 p)) co a = Returned s1 hdr"
    and co: "readCommitOffset s0 a = Inr co"
    by (auto simp add: pullRequestIssue_def Let_def s0_def
          split: option.splits sum.splits result.splits if_splits)
  show ?thesis
    using pullKernelImpl_Returned [OF k] co rc by (simp add: s0_def)
qed


text \<open>
  Claim C6, as amended. When a pull is issued in cluster mode, the \<open>commitOffset\<close> of the
  request header is the offset that \<^verbatim>\<open>readOffset(mq, READ_FROM_MEMORY)\<close> returned, whatever
  its sign: the offset itself when it is positive, 0 when it is 0, and the negative number
  itself (so \<open>- 1\<close> for an absent offset) when it is negative. Only the commit-offset bit of
  \<open>sysFlag\<close> is kept for a \<open>commitOffset\<close> above 0. In broadcast mode \<open>commitOffset\<close> is 0.
  The header is that of the \<^verbatim>\<open>pullMessage\<close> call, the last event of the trace.
\<close>

theorem commitOffset_sent:
  assumes "pullRequestIssue s mq a = Issued s1 p sd hdr"
  shows "(isBroadcast (options s) \<longrightarrow> commitOffset hdr = 0) \<and>
         (\<not> isBroadcast (options s) \<longrightarrow> readOffsetMemory a = Inr (commitOffset hdr)) \<and>
         (odd (sysFlag hdr) \<longrightarrow> 0 < commitOffset hdr) \<and>
         trace s1 \<noteq> [] \<and>
         (\<exists>addr. last (trace s1) =
            PullMessage addr hdr (consumerTimeoutMillisWhenSuspend (options s)))"
proof -
  have c: "readCommitOffset s a = Inr (commitOffset hdr)"
    using pullRequestIssue_Issued [OF assms] by simp
  have b: "isBroadcast (options s) \<longrightarrow> commitOffset hdr = 0"
    using c by (auto simp add: readCommitOffset_def messageModelClustering_def)
  have m: "\<not> isBroadcast (options s) \<longrightarrow> readOffsetMemory a = Inr (commitOffset hdr)"
    using c by (auto simp add: readCommitOffset_def messageModelClustering_def
        split: sum.splits if_splits)
  show ?thesis
    using b m pullRequestIssue_Issued [OF assms] by simp
qed

lemma issue0:
  "pullRequestIssue consumer0 mq0 (answersWith pr ack) =
     Issued
       (consumer0\<lparr>heap := (heap consumer0)
            (0 := row0\<lparr>processQueue := (processQueue row0)\<lparr>lastPullTimestamp := 1000\<rparr>\<rparr>),
          trace := [PullMessage ''addr''
            \<lparr>rh_consumerGroup = ''G'', rh_topic = ''T'', rh_queueId = 0, rh_queueOffset = 5,
             maxMsgNums = 32, sysFlag = 6, commitOffset = - 1, suspendTimeoutMillis = 15000,
             subscription = Some ''A||B'', rh_subVersion = 1\<rparr> 30000]\<rparr>)
       0 sd0
       \<lparr>rh_consumerGroup = ''G'', rh_topic = ''T'', rh_queueId = 0, rh_queueOffset = 5,
        maxMsgNums = 32, sysFlag = 6, commitOffset = - 1, suspendTimeoutMillis = 15000,
        subscription = Some ''A||B'', rh_subVersion = 1\<rparr>"
  by (simp add: pullRequestIssue_def consumer0_def mq0_def answersWith_def row0_def opts0_def
        sd0_def modify_row_def emit_def pullKernelImpl_def findBrokerAddress_def
        readCommitOffset_def recalculatePullFromWhichNode_def messageModelClustering_def Let_def
        buildSysFlag_def MASTER_ID_def)

text \<open>Claim C6 as amended, for the consumer with one queue in cluster mode and no offset
  in memory.\<close>

theorem commitOffset_sent_witness:
  "issued_header (pullRequestIssue consumer0 mq0 (answersWith foundResult True)) =
     Some \<lparr>rh_consumerGroup = ''G'', rh_topic = ''T'', rh_queueId = 0, rh_queueOffset = 5,
        maxMsgNums = 32, sysFlag = 6, commitOffset = - 1, suspendTimeoutMillis = 15000,
        subscription = Some ''A||B'', rh_subVersion = 1\<rparr> \<and>
   readOffsetMemory (answersWith foundResult True) = Inr (- 1) \<and>
   \<not> isBroadcast (options consumer0)"
proof -
  have h: "issued_header (pullRequestIssue consumer0 mq0 (answersWith foundResult True)) =
     Some \<lparr>rh_consumerGroup = ''G'', rh_topic = ''T'', rh_queueId = 0, rh_queueOffset = 5,
        maxMsgNums = 32, sysFlag = 6, commitOffset = - 1, suspendTimeoutMillis = 15000,
        subscription = Some ''A||B'', rh_subVersion = 1\<rparr>"
    by (simp add: issue0)
  have b: "\<not> isBroadcast (options consumer0)"
    by (simp add: consumer0_def opts0_def)
  show ?thesis
    using h b commitOffset_sent [OF issue0] by simp
qed

text \<open>
  Claim C6 as stated fails: in cluster mode, when \<^verbatim>\<open>readOffset\<close> reports \<open>- 1\<close> for an
  absent offset, the header carries \<open>commitOffset = - 1\<close>, not 0.
\<close>

theorem commitOffset_counterexample:
  "\<not> isBroadcast (options consumer0) \<and>
   readOffsetMemory (answersWith foundResult True) = Inr (- 1) \<and>
   map_option commitOffset
     (issued_header (pullRequestIssue consumer0 mq0 (answersWith foundResult True))) = Some (- 1)"
proof -
  have "map_option commitOffset
     (issued_header (pullRequestIssue consumer0 mq0 (answersWith foundResult True))) = Some (- 1)"
    by (simp add: issue0)
  then show ?thesis
    by (simp add: consumer0_def opts0_def answersWith_def)
qed


lemma toNumber_exact: "\<bar>n\<bar> < 2 ^ 53 \<Longrightarrow> toNumber n = n"
proof -
  assume "\<bar>n\<bar> < 2 ^ 53"
  then have "nat \<bar>n\<bar> < 2 ^ 53"
    by (simp add: nat_less_iff)
  then have "roundAt 0 (nat \<bar>n\<bar>) = nat \<bar>n\<bar>"
    by (simp add: roundHalfEven_def)
  then show ?thesis
    by (simp add: toNumber_def sgn_if)
qed

lemma toNumber_examples:
  "toNumber 9007199254740992 = 9007199254740992"
  "toNumber 9007199254740993 = 9007199254740992"
  "toNumber 9007199254740995 = 9007199254740996"
  "toNumber (- 9007199254740993) = - 9007199254740992"
  by (simp_all add: toNumber_def roundHalfEven_def)

lemma jsAdd_one_safe:
  assumes "0 \<le> n" and "n < 2 ^ 53"
  shows "jsAdd (toNumber n) 1 = n + 1"
proof -
  have e: "toNumber n = n"
    using assms by (intro toNumber_exact) simp
  show ?thesis
  proof (cases "n + 1 < 2 ^ 53")
    case True
    then show ?thesis
      using assms e by (simp add: jsAdd_def toNumber_exact)
  next
    case False
    then have "n + 1 = 9007199254740992"
      using assms by simp
    then show ?thesis
      using e by (simp add: jsAdd_def toNumber_examples)
  qed
qed




lemma filter0: "filterByTags sd0 (msgFoundList foundResult) = [msgA]"
  by (simp add: filterByTags_def tagMatches_def sd0_def foundResult_def msgA_def msgC_def msgN_def)

lemma offset_msgA: "sint (queueOffset msgA) = 5"
  by (simp add: msgA_def)





subsection \<open>Where a new queue starts\<close>

lemma take_length_prefix: "(take (length p) xs = p) = (\<exists>rest. xs = p @ rest)"
proof
  assume "take (length p) xs = p"
  then have "xs = p @ drop (length p) xs"
    by (metis append_take_drop_id)
  then show "\<exists>rest. xs = p @ rest" by (rule exI)
next
  assume "\<exists>rest. xs = p @ rest"
  then show "take (length p) xs = p" by auto
qed

lemma isRetryTopic_prefix: "isRetryTopic mq = (\<exists>rest. topic mq = ''%RETRY%'' @ rest)"
  unfolding isRetryTopic_def RETRY_GROUP_TOPIC_PREFIX_def by (rule take_length_prefix)

text \<open>
  Claim C4. \<^verbatim>\<open>computePullFromWhere\<close> returns the stored offset when the offset read from
  the store is not negative. When it is \<open>- 1\<close>: under CONSUME\_FROM\_LAST\_OFFSET and its
  aliases, 0 for a topic that begins with \<^verbatim>\<open>%RETRY%\<close> and what \<^verbatim>\<open>maxOffset\<close> returns
  otherwise; under CONSUME\_FROM\_FIRST\_OFFSET, 0; under CONSUME\_FROM\_TIMESTAMP, what
  \<^verbatim>\<open>maxOffset\<close> returns for a retry topic and what \<^verbatim>\<open>searchOffset\<close> returns for the
  configured time otherwise. It returns \<open>- 1\<close> whenever one of the calls it makes throws.
\<close>

theorem computePullFromWhere_table:
  "(\<forall>off. readOffsetStore a mq = Inr off \<and> 0 \<le> off \<longrightarrow> computePullFromWhere s mq a = off) \<and>
   (readOffsetStore a mq = Inr (- 1) \<and>
    consumeFromWhere (options s) \<in>
      {CONSUME_FROM_LAST_OFFSET, CONSUME_FROM_LAST_OFFSET_AND_FROM_MIN_WHEN_BOOT_FIRST,
       CONSUME_FROM_MIN_OFFSET, CONSUME_FROM_MAX_OFFSET} \<longrightarrow>
      (isRetryTopic mq \<longrightarrow> computePullFromWhere s mq a = 0) \<and>
      (\<not> isRetryTopic mq \<longrightarrow>
         (\<forall>m. maxOffset a mq = Inr m \<longrightarrow> computePullFromWhere s mq a = m) \<and>
         (\<forall>e. maxOffset a mq = Inl e \<longrightarrow> computePullFromWhere s mq a = - 1))) \<and>
   (readOffsetStore a mq = Inr (- 1) \<and>
    consumeFromWhere (options s) = CONSUME_FROM_FIRST_OFFSET \<longrightarrow>
      computePullFromWhere s mq a = 0) \<and>
   (readOffsetStore a mq = Inr (- 1) \<and>
    consumeFromWhere (options s) = CONSUME_FROM_TIMESTAMP \<longrightarrow>
      (isRetryTopic mq \<longrightarrow>
         (\<forall>m. maxOffset a mq = Inr m \<longrightarrow> computePullFromWhere s mq a = m) \<and>
         (\<forall>e. maxOffset a mq = Inl e \<longrightarrow> computePullFromWhere s mq a = - 1)) \<and>
      (\<not> isRetryTopic mq \<longrightarrow>
         (parseDate a (consumeTimestamp (options s)) = None \<longrightarrow>
            computePullFromWhere s mq a = - 1) \<and>
         (\<forall>t. parseDate a (consumeTimestamp (options s)) = Some t \<longrightarrow>
            (\<forall>v. searchOffset a mq t = Inr v \<longrightarrow> computePullFromWhere s mq a = v) \<and>
            (\<forall>e. searchOffset a mq t = Inl e \<longrightarrow> computePullFromWhere s mq a = - 1)))) \<and>
   (\<forall>e. readOffsetStore a mq = Inl e \<longrightarrow> computePullFromWhere s mq a = - 1) \<and>
   isRetryTopic mq = (\<exists>rest. topic mq = ''%RETRY%'' @ rest)"
proof -
  have stored: "\<forall>off. readOffsetStore a mq = Inr off \<and> 0 \<le> off \<longrightarrow>
      computePullFromWhere s mq a = off"
    by (cases "consumeFromWhere (options s)")
       (simp_all add: computePullFromWhere_def fromLastOffset_def fromTimestamp_def)
  have lastp: "readOffsetStore a mq = Inr (- 1) \<and>
    consumeFromWhere (options s) \<in>
      {CONSUME_FROM_LAST_OFFSET, CONSUME_FROM_LAST_OFFSET_AND_FROM_MIN_WHEN_BOOT_FIRST,
       CONSUME_FROM_MIN_OFFSET, CONSUME_FROM_MAX_OFFSET} \<longrightarrow>
      (isRetryTopic mq \<longrightarrow> computePullFromWhere s mq a = 0) \<and>
      (\<not> isRetryTopic mq \<longrightarrow>
         (\<forall>m. maxOffset a mq = Inr m \<longrightarrow> computePullFromWhere s mq a = m) \<and>
         (\<forall>e. maxOffset a mq = Inl e \<longrightarrow> computePullFromWhere s mq a = - 1))"
    by (auto simp add: computePullFromWhere_def fromLastOffset_def orCatch_def)
  have first: "readOffsetStore a mq = Inr (- 1) \<and>
    consumeFromWhere (options s) = CONSUME_FROM_FIRST_OFFSET \<longrightarrow>
      computePullFromWhere s mq a = 0"
    by (simp add: computePullFromWhere_def)
  have stamp: "readOffsetStore a mq = Inr (- 1) \<and>
    consumeFromWhere (options s) = CONSUME_FROM_TIMESTAMP \<longrightarrow>
      (isRetryTopic mq \<longrightarrow>
         (\<forall>m. maxOffset a mq = Inr m \<longrightarrow> computePullFromWhere s mq a = m) \<and>
         (\<forall>e. maxOffset a mq = Inl e \<longrightarrow> computePullFromWhere s mq a = - 1)) \<and>
      (\<not> isRetryTopic mq \<longrightarrow>
         (parseDate a (consumeTimestamp (options s)) = None \<longrightarrow>
            computePullFromWhere s mq a = - 1) \<and>
         (\<forall>t. parseDate a (consumeTimestamp (options s)) = Some t \<longrightarrow>
            (\<forall>v. searchOffset a mq t = Inr v \<longrightarrow> computePullFromWhere s mq a = v) \<and>
            (\<forall>e. searchOffset a mq t = Inl e \<longrightarrow> computePullFromWhere s mq a = - 1)))"
    by (auto simp add: computePullFromWhere_def fromTimestamp_def orCatch_def)
  have thrown: "\<forall>e. readOffsetStore a mq = Inl e \<longrightarrow> computePullFromWhere s mq a = - 1"
    by (simp add: computePullFromWhere_def)
  show ?thesis
    using stored lastp first stamp thrown isRetryTopic_prefix [of mq]
    by (intro conjI)
qed

text \<open>Claim C4 on a first start from the last offset: the tail of an ordinary queue, the
  head of a retry queue; then with the stored offset 12, and with a store that throws.\<close>

theorem computePullFromWhere_table_witness:
  "readOffsetStore rebalanceOk mq0 = Inr (- 1) \<and>
   consumeFromWhere (options consumer0) = CONSUME_FROM_LAST_OFFSET \<and>
   \<not> isRetryTopic mq0 \<and>
   maxOffset rebalanceOk mq0 = Inr 40 \<and>
   computePullFromWhere consumer0 mq0 rebalanceOk = 40 \<and>
   isRetryTopic mqRetry \<and>
   computePullFromWhere consumer0 mqRetry rebalanceOk = 0 \<and>
   readOffsetStore (rebalanceOk\<lparr>readOffsetStore := (\<lambda>_. Inr 12)\<rparr>) mq0 = Inr 12 \<and>
   computePullFromWhere consumer0 mq0 (rebalanceOk\<lparr>readOffsetStore := (\<lambda>_. Inr 12)\<rparr>) = 12 \<and>
   readOffsetStore (rebalanceOk\<lparr>readOffsetStore := (\<lambda>_. Inl StoreError)\<rparr>) mq0 = Inl StoreError \<and>
   computePullFromWhere consumer0 mq0 (rebalanceOk\<lparr>readOffsetStore := (\<lambda>_. Inl StoreError)\<rparr>) = - 1"
proof -
  have h: "readOffsetStore rebalanceOk mq0 = Inr (- 1)"
    "readOffsetStore rebalanceOk mqRetry = Inr (- 1)"
    "consumeFromWhere (options consumer0) = CONSUME_FROM_LAST_OFFSET"
    "maxOffset rebalanceOk mq0 = Inr 40"
    "readOffsetStore (rebalanceOk\<lparr>readOffsetStore := (\<lambda>_. Inr 12)\<rparr>) mq0 = Inr 12"
    "readOffsetStore (rebalanceOk\<lparr>readOffsetStore := (\<lambda>_. Inl StoreError)\<rparr>) mq0 = Inl StoreError"
    by (simp_all add: rebalanceOk_def consumer0_def opts0_def)
  have r: "\<not> isRetryTopic mq0" "isRetryTopic mqRetry"
    by (simp_all add: isRetryTopic_def RETRY_GROUP_TOPIC_PREFIX_def mq0_def mqRetry_def)
  show ?thesis
    using h r
      computePullFromWhere_table [of rebalanceOk mq0 consumer0]
      computePullFromWhere_table [of rebalanceOk mqRetry consumer0]
      computePullFromWhere_table [of "rebalanceOk\<lparr>readOffsetStore := (\<lambda>_. Inr 12)\<rparr>" mq0 consumer0]
      computePullFromWhere_table [of "rebalanceOk\<lparr>readOffsetStore := (\<lambda>_. Inl StoreError)\<rparr>" mq0 consumer0]
    by simp
qed

subsection \<open>The removal pass of the rebalance\<close>

lemma list_ex_key: "list_ex (\<lambda>mq. key mq = k) mqSet = (k \<in> key ` set mqSet)"
  by (auto simp add: list_ex_iff)

lemma dropAndRemove_ok:
  assumes "persistOkFor a (messageQueue (heap s p))"
  shows "dropAndRemove a k p s c =
     Returned (table_delete k (emit (RemoveOffset (messageQueue (heap s p)))
                 (emit (Persist (messageQueue (heap s p))) (modify_row p set_droped s)))) True"
  using assms by (simp add: dropAndRemove_def removeUnnecessaryMessageQueue_def Let_def)

lemma deleteUnnecessaryQueues_step:
  assumes "map_of (processQueueTable s) k = Some p"
    and "persistOkFor a (messageQueue (heap s p))"
  shows "deleteUnnecessaryQueues a t mqSet (k # ks) s c =
     (if unnecessary t mqSet (heap s p)
      then deleteUnnecessaryQueues a t mqSet ks
             (table_delete k (emit (RemoveOffset (messageQueue (heap s p)))
                 (emit (Persist (messageQueue (heap s p))) (modify_row p set_droped s)))) True
      else deleteUnnecessaryQueues a t mqSet ks s c)"
  using assms
  by (simp add: dropAndRemove_ok unnecessary_def list_ex_key consumeType_def)

lemma deleteUnnecessaryQueues_result:
  assumes ok: "\<forall>m. persistOkFor a m"
  shows "distinct (map fst es) \<Longrightarrow> distinct (map snd es) \<Longrightarrow>
     (\<forall>e \<in> set es. map_of (processQueueTable s) (fst e) = Some (snd e)) \<Longrightarrow>
     \<exists>s'. deleteUnnecessaryQueues a t mqSet (map fst es) s c =
             Returned s' (c \<or> (\<exists>e \<in> set es. unnecessary t mqSet (heap s (snd e)))) \<and>
          processQueueTable s' =
            filter (\<lambda>x. fst x \<notin> fst ` {e \<in> set es. unnecessary t mqSet (heap s (snd e))})
              (processQueueTable s) \<and>
          heap s' =
            (\<lambda>q. if q \<in> snd ` {e \<in> set es. unnecessary t mqSet (heap s (snd e))}
                 then set_droped (heap s q) else heap s q) \<and>
          trace s' = trace s @
            concat (map (\<lambda>e. removalEvents (heap s (snd e)))
                      (filter (\<lambda>e. unnecessary t mqSet (heap s (snd e))) es))"
proof (induction es arbitrary: s c)
  case Nil
  then show ?case by simp
next
  case (Cons e es)
  obtain k p where e: "e = (k, p)" by (cases e)
  have kp: "map_of (processQueueTable s) k = Some p"
    using Cons.prems(3) e by simp
  have kfresh: "k \<notin> fst ` set es" and pfresh: "p \<notin> snd ` set es"
    using Cons.prems(1,2) e by auto
  have d1: "distinct (map fst es)" and d2: "distinct (map snd es)"
    using Cons.prems(1,2) by simp_all
  show ?case
  proof (cases "unnecessary t mqSet (heap s p)")
    case False
    have "\<forall>e \<in> set es. map_of (processQueueTable s) (fst e) = Some (snd e)"
      using Cons.prems(3) by simp
    from Cons.IH [OF d1 d2 this, of c]
    obtain s' where s': "deleteUnnecessaryQueues a t mqSet (map fst es) s c =
             Returned s' (c \<or> (\<exists>e \<in> set es. unnecessary t mqSet (heap s (snd e))))"
      "processQueueTable s' =
            filter (\<lambda>x. fst x \<notin> fst ` {e \<in> set es. unnecessary t mqSet (heap s (snd e))})
              (processQueueTable s)"
      "heap s' =
            (\<lambda>q. if q \<in> snd ` {e \<in> set es. unnecessary t mqSet (heap s (snd e))}
                 then set_droped (heap s q) else heap s q)"
      "trace s' = trace s @
            concat (map (\<lambda>e. removalEvents (heap s (snd e)))
                      (filter (\<lambda>e. unnecessary t mqSet (heap s (snd e))) es))"
      by blast
    have same: "{x \<in> set (e # es). unnecessary t mqSet (heap s (snd x))} =
                {x \<in> set es. unnecessary t mqSet (heap s (snd x))}"
      using False e by auto
    have step: "deleteUnnecessaryQueues a t mqSet (map fst (e # es)) s c =
                deleteUnnecessaryQueues a t mqSet (map fst es) s c"
      using deleteUnnecessaryQueues_step [OF kp, of a t mqSet "map fst es" c] ok False e
      by simp
    have r: "deleteUnnecessaryQueues a t mqSet (map fst (e # es)) s c =
             Returned s' (c \<or> (\<exists>x \<in> set (e # es). unnecessary t mqSet (heap s (snd x))))"
      using step s'(1) False e by simp
    have tb: "processQueueTable s' =
            filter (\<lambda>x. fst x \<notin> fst ` {x \<in> set (e # es). unnecessary t mqSet (heap s (snd x))})
              (processQueueTable s)"
      unfolding same by (rule s'(2))
    have hp: "heap s' =
            (\<lambda>q. if q \<in> snd ` {x \<in> set (e # es). unnecessary t mqSet (heap s (snd x))}
                 then set_droped (heap s q) else heap s q)"
      unfolding same by (rule s'(3))
    have tr: "trace s' = trace s @
            concat (map (\<lambda>x. removalEvents (heap s (snd x)))
                      (filter (\<lambda>x. unnecessary t mqSet (heap s (snd x))) (e # es)))"
      using False e by (simp add: s'(4))
    show ?thesis
      using r tb hp tr by blast
  next
    case True
    define s1 where "s1 = table_delete k (emit (RemoveOffset (messageQueue (heap s p)))
                 (emit (Persist (messageQueue (heap s p))) (modify_row p set_droped s)))"
    have t1: "processQueueTable s1 = filter (\<lambda>x. fst x \<noteq> k) (processQueueTable s)"
      by (auto simp add: s1_def table_delete_def emit_def modify_row_def AList.delete_eq
            intro: filter_cong)
    have h1: "heap s1 = (heap s)(p := set_droped (heap s p))"
      by (simp add: s1_def table_delete_def emit_def modify_row_def)
    have tr1: "trace s1 = trace s @ removalEvents (heap s p)"
      by (simp add: s1_def table_delete_def emit_def modify_row_def removalEvents_def)
    have heq: "\<And>x. x \<in> set es \<Longrightarrow> heap s1 (snd x) = heap s (snd x)"
      using pfresh h1 by auto
    have pre: "\<forall>x \<in> set es. map_of (processQueueTable s1) (fst x) = Some (snd x)"
    proof
      fix x assume x: "x \<in> set es"
      then have "fst x \<noteq> k" using kfresh by auto
      moreover have "map_of (processQueueTable s) (fst x) = Some (snd x)"
        using Cons.prems(3) x by simp
      ultimately show "map_of (processQueueTable s1) (fst x) = Some (snd x)"
        by (simp add: s1_def table_delete_def emit_def modify_row_def delete_conv)
    qed
    from Cons.IH [OF d1 d2 pre, of True]
    obtain s' where s': "deleteUnnecessaryQueues a t mqSet (map fst es) s1 True =
             Returned s' (True \<or> (\<exists>e \<in> set es. unnecessary t mqSet (heap s1 (snd e))))"
      "processQueueTable s' =
            filter (\<lambda>x. fst x \<notin> fst ` {e \<in> set es. unnecessary t mqSet (heap s1 (snd e))})
              (processQueueTable s1)"
      "heap s' =
            (\<lambda>q. if q \<in> snd ` {e \<in> set es. unnecessary t mqSet (heap s1 (snd e))}
                 then set_droped (heap s1 q) else heap s1 q)"
      "trace s' = trace s1 @
            concat (map (\<lambda>e. removalEvents (heap s1 (snd e)))
                      (filter (\<lambda>e. unnecessary t mqSet (heap s1 (snd e))) es))"
      by blast
    have D1: "{x \<in> set es. unnecessary t mqSet (heap s1 (snd x))} =
              {x \<in> set es. unnecessary t mqSet (heap s (snd x))}"
      using heq by auto
    have D: "{x \<in> set (e # es). unnecessary t mqSet (heap s (snd x))} =
             insert (k, p) {x \<in> set es. unnecessary t mqSet (heap s (snd x))}"
      using True e by auto
    have step: "deleteUnnecessaryQueues a t mqSet (map fst (e # es)) s c =
                deleteUnnecessaryQueues a t mqSet (map fst es) s1 True"
      using deleteUnnecessaryQueues_step [OF kp, of a t mqSet "map fst es" c] ok True e
      by (simp add: s1_def)
    have r: "deleteUnnecessaryQueues a t mqSet (map fst (e # es)) s c =
             Returned s' (c \<or> (\<exists>x \<in> set (e # es). unnecessary t mqSet (heap s (snd x))))"
      using step s'(1) True e by simp
    have tb: "processQueueTable s' =
            filter (\<lambda>x. fst x \<notin> fst ` {x \<in> set (e # es). unnecessary t mqSet (heap s (snd x))})
              (processQueueTable s)"
      unfolding D s'(2) D1 t1 by (auto intro: filter_cong)
    have hp: "heap s' =
            (\<lambda>q. if q \<in> snd ` {x \<in> set (e # es). unnecessary t mqSet (heap s (snd x))}
                 then set_droped (heap s q) else heap s q)"
      unfolding D s'(3) D1 h1 using pfresh by (auto simp add: fun_eq_iff)
    have fm: "filter (\<lambda>x. unnecessary t mqSet (heap s1 (snd x))) es =
              filter (\<lambda>x. unnecessary t mqSet (heap s (snd x))) es"
      using heq by (auto intro: filter_cong)
    have mp: "map (\<lambda>x. removalEvents (heap s1 (snd x)))
                (filter (\<lambda>x. unnecessary t mqSet (heap s (snd x))) es) =
              map (\<lambda>x. removalEvents (heap s (snd x)))
                (filter (\<lambda>x. unnecessary t mqSet (heap s (snd x))) es)"
      using heq by (auto intro: map_cong)
    have tr: "trace s' = trace s @
            concat (map (\<lambda>x. removalEvents (heap s (snd x)))
                      (filter (\<lambda>x. unnecessary t mqSet (heap s (snd x))) (e # es)))"
      using True e by (simp add: s'(4) fm mp tr1)
    show ?thesis
      using r tb hp tr by blast
  qed
qed


text \<open>
  Claim C7, as amended. In the removal pass of
  \<^verbatim>\<open>updateProcessQueueTableInRebalance(topic, assigned)\<close>, when every \<^verbatim>\<open>persist\<close>
  succeeds: every entry whose queue has the rebalanced topic and a key that is not in the
  assigned set is dropped, its offset persisted and its key removed; every entry of another
  topic whose ProcessQueue is pull-expired gets the same treatment; every other entry stays
  as it is. In particular an entry of the rebalanced topic that is in the assigned set is
  kept and not dropped, pull-expired or not. The pass reports a change exactly when it has
  removed an entry.
\<close>

theorem removal_pass:
  assumes "distinct (map fst (processQueueTable s))"
    and "distinct (map snd (processQueueTable s))"
    and "\<forall>m. persistOkFor a m"
  shows "\<exists>s'. deleteUnnecessaryQueues a t mqSet (map fst (processQueueTable s)) s False =
             Returned s' (\<exists>e \<in> set (processQueueTable s). unnecessary t mqSet (heap s (snd e))) \<and>
          processQueueTable s' =
            filter (\<lambda>e. \<not> unnecessary t mqSet (heap s (snd e))) (processQueueTable s) \<and>
          (\<forall>e \<in> set (processQueueTable s).
             heap s' (snd e) =
               (if unnecessary t mqSet (heap s (snd e)) then set_droped (heap s (snd e))
                else heap s (snd e))) \<and>
          trace s' = trace s @
            concat (map (\<lambda>e. removalEvents (heap s (snd e)))
                      (filter (\<lambda>e. unnecessary t mqSet (heap s (snd e))) (processQueueTable s))) \<and>
          (\<forall>e \<in> set (processQueueTable s).
             topic (messageQueue (heap s (snd e))) = t \<and>
             key (messageQueue (heap s (snd e))) \<in> key ` set mqSet \<longrightarrow>
               e \<in> set (processQueueTable s') \<and> heap s' (snd e) = heap s (snd e))"
proof -
  let ?T = "processQueueTable s"
  let ?D = "{e \<in> set ?T. unnecessary t mqSet (heap s (snd e))}"
  have pre: "\<forall>e \<in> set ?T. map_of ?T (fst e) = Some (snd e)"
    using assms(1) by simp
  from deleteUnnecessaryQueues_result [OF assms(3) assms(1) assms(2) pre, of t mqSet False]
  obtain s' where r: "deleteUnnecessaryQueues a t mqSet (map fst ?T) s False =
             Returned s' (False \<or> (\<exists>e \<in> set ?T. unnecessary t mqSet (heap s (snd e))))"
    and tb: "processQueueTable s' = filter (\<lambda>x. fst x \<notin> fst ` ?D) ?T"
    and hp: "heap s' = (\<lambda>q. if q \<in> snd ` ?D then set_droped (heap s q) else heap s q)"
    and tr: "trace s' = trace s @
            concat (map (\<lambda>e. removalEvents (heap s (snd e)))
                      (filter (\<lambda>e. unnecessary t mqSet (heap s (snd e))) ?T))"
    by blast
  have k: "(fst x \<in> fst ` ?D) = unnecessary t mqSet (heap s (snd x))" if "x \<in> set ?T" for x
  proof
    assume "fst x \<in> fst ` ?D"
    then obtain e where e: "e \<in> set ?T" "unnecessary t mqSet (heap s (snd e))" "fst e = fst x"
      by auto
    have "inj_on fst (set ?T)" using assms(1) by (simp add: distinct_map)
    then have "e = x" using e(1,3) that by (auto dest: inj_onD)
    then show "unnecessary t mqSet (heap s (snd x))" using e(2) by simp
  next
    assume "unnecessary t mqSet (heap s (snd x))"
    then show "fst x \<in> fst ` ?D" using that by auto
  qed
  have v: "(snd x \<in> snd ` ?D) = unnecessary t mqSet (heap s (snd x))" if "x \<in> set ?T" for x
  proof
    assume "snd x \<in> snd ` ?D"
    then obtain e where e: "e \<in> set ?T" "unnecessary t mqSet (heap s (snd e))" "snd e = snd x"
      by auto
    then show "unnecessary t mqSet (heap s (snd x))" by simp
  next
    assume "unnecessary t mqSet (heap s (snd x))"
    then show "snd x \<in> snd ` ?D" using that by auto
  qed
  have tb': "processQueueTable s' = filter (\<lambda>e. \<not> unnecessary t mqSet (heap s (snd e))) ?T"
    unfolding tb
  proof (rule filter_cong [OF refl])
    fix x assume "x \<in> set ?T"
    then show "(fst x \<notin> fst ` ?D) = (\<not> unnecessary t mqSet (heap s (snd x)))"
      using k by simp
  qed
  have hp': "\<forall>e \<in> set ?T. heap s' (snd e) =
               (if unnecessary t mqSet (heap s (snd e)) then set_droped (heap s (snd e))
                else heap s (snd e))"
    unfolding hp using v by simp
  have kept: "\<forall>e \<in> set ?T.
             topic (messageQueue (heap s (snd e))) = t \<and>
             key (messageQueue (heap s (snd e))) \<in> key ` set mqSet \<longrightarrow>
               e \<in> set (processQueueTable s') \<and> heap s' (snd e) = heap s (snd e)"
    using hp' by (auto simp add: tb' unnecessary_def)
  show ?thesis
    using r tb' hp' tr kept by (intro exI [of _ s']) simp
qed

lemma rebalance3:
  "updateProcessQueueTableInRebalance consumer3 ''T'' [mq0] rebalanceOk =
     Returned
       (consumer3\<lparr>processQueueTable := [(''T@b@0'', 0)],
          heap := (\<lambda>_. row0)(0 := rowOf mq0 True, 1 := set_droped (rowOf mq1 False),
                              2 := set_droped (rowOf mqU True)),
          trace := [Persist mq1, RemoveOffset mq1, Persist mqU, RemoveOffset mqU]\<rparr>)
       True"
  by (simp add: updateProcessQueueTableInRebalance_def consumer3_def consumer0_def
        dropAndRemove_def removeUnnecessaryMessageQueue_def rebalanceOk_def rowOf_def
        mq0_def mq1_def mqU_def consumeType_def modify_row_def emit_def table_delete_def
        addNewQueue_def has_def Let_def fun_upd_twist)


text \<open>Claim C7 as amended, for three queues and the rebalance of topic T with the first
  queue assigned: the second queue of T and the expired queue of topic U are removed.\<close>

theorem removal_pass_witness:
  "distinct (map fst (processQueueTable consumer3)) \<and>
   distinct (map snd (processQueueTable consumer3)) \<and>
   (\<forall>m. persistOkFor rebalanceOk m) \<and>
   processQueueTable
     (result_state (deleteUnnecessaryQueues rebalanceOk ''T'' [mq0]
        (map fst (processQueueTable consumer3)) consumer3 False)) = [(''T@b@0'', 0)]"
proof -
  have h1: "distinct (map fst (processQueueTable consumer3))"
    and h2: "distinct (map snd (processQueueTable consumer3))"
    by (simp_all add: consumer3_def)
  have h3: "\<forall>m. persistOkFor rebalanceOk m"
    by (simp add: rebalanceOk_def)
  obtain s' where r: "deleteUnnecessaryQueues rebalanceOk ''T'' [mq0]
        (map fst (processQueueTable consumer3)) consumer3 False =
          Returned s' (\<exists>e \<in> set (processQueueTable consumer3).
                         unnecessary ''T'' [mq0] (heap consumer3 (snd e)))"
    and tb: "processQueueTable s' =
        filter (\<lambda>e. \<not> unnecessary ''T'' [mq0] (heap consumer3 (snd e)))
          (processQueueTable consumer3)"
    using removal_pass [OF h1 h2 h3, of "''T''" "[mq0]"] by blast
  have "filter (\<lambda>e. \<not> unnecessary ''T'' [mq0] (heap consumer3 (snd e)))
          (processQueueTable consumer3) = [(''T@b@0'', 0)]"
    by (simp add: consumer3_def unnecessary_def rowOf_def mq0_def mq1_def mqU_def)
  then have "processQueueTable
     (result_state (deleteUnnecessaryQueues rebalanceOk ''T'' [mq0]
        (map fst (processQueueTable consumer3)) consumer3 False)) = [(''T@b@0'', 0)]"
    by (simp add: r tb)
  then show ?thesis
    using h1 h2 h3 by simp
qed

text \<open>
  Claim C7 as stated fails: the first queue has the rebalanced topic, is in the assigned set
  and is pull-expired, and the rebalance neither drops it nor removes its key nor persists
  its offset.
\<close>

theorem removal_pass_counterexample:
  "topic (messageQueue (heap consumer3 0)) = ''T'' \<and>
   list_ex (\<lambda>mq. key mq = key (messageQueue (heap consumer3 0))) [mq0] \<and>
   isPullExpired (processQueue (heap consumer3 0)) \<and>
   map_of (processQueueTable consumer3) ''T@b@0'' = Some 0 \<and>
   map_of (processQueueTable
     (result_state (updateProcessQueueTableInRebalance consumer3 ''T'' [mq0] rebalanceOk)))
     ''T@b@0'' = Some 0 \<and>
   \<not> droped (processQueue
     (heap (result_state (updateProcessQueueTableInRebalance consumer3 ''T'' [mq0] rebalanceOk)) 0)) \<and>
   trace (result_state (updateProcessQueueTableInRebalance consumer3 ''T'' [mq0] rebalanceOk)) =
     [Persist mq1, RemoveOffset mq1, Persist mqU, RemoveOffset mqU]"
proof -
  have a: "map_of (processQueueTable
     (result_state (updateProcessQueueTableInRebalance consumer3 ''T'' [mq0] rebalanceOk)))
     ''T@b@0'' = Some 0"
    and b: "\<not> droped (processQueue
     (heap (result_state (updateProcessQueueTableInRebalance consumer3 ''T'' [mq0] rebalanceOk)) 0))"
    and c: "trace (result_state (updateProcessQueueTableInRebalance consumer3 ''T'' [mq0] rebalanceOk)) =
     [Persist mq1, RemoveOffset mq1, Persist mqU, RemoveOffset mqU]"
    by (simp_all add: rebalance3 rowOf_def)
  have d: "topic (messageQueue (heap consumer3 0)) = ''T''"
    "list_ex (\<lambda>mq. key mq = key (messageQueue (heap consumer3 0))) [mq0]"
    "isPullExpired (processQueue (heap consumer3 0))"
    "map_of (processQueueTable consumer3) ''T@b@0'' = Some 0"
    by (simp_all add: consumer3_def rowOf_def mq0_def)
  show ?thesis
    using a b c d by simp
qed

subsection \<open>The dropped flag, the loop of the worker and OFFSET\_ILLEGAL\<close>

lemma consumerIssued_eq:
  "consumerIssued = consumer0\<lparr>heap := (heap consumer0)
            (0 := row0\<lparr>processQueue := (processQueue row0)\<lparr>lastPullTimestamp := 1000\<rparr>\<rparr>),
          trace := [PullMessage ''addr'' header0 30000]\<rparr>"
  by (simp add: consumerIssued_def issue0 header0_def)

lemma consumerDropped_eq:
  "consumerDropped = consumer0\<lparr>processQueueTable := [],
      heap := (heap consumer0)
            (0 := row0\<lparr>processQueue := \<lparr>lastPullTimestamp = 1000, droped = True, isPullExpired = False\<rparr>\<rparr>),
      trace := [PullMessage ''addr'' header0 30000, Persist mq0, RemoveOffset mq0]\<rparr>"
  unfolding consumerDropped_def consumerIssued_eq
  by (simp add: updateProcessQueueTableInRebalance_def consumer0_def
        dropAndRemove_def removeUnnecessaryMessageQueue_def rebalanceOk_def row0_def
        mq0_def consumeType_def modify_row_def emit_def table_delete_def set_droped_def
        Let_def)

lemma executeIllegal:
  "executePullRequestImmediately consumer0 mq0 (answersWith illegalResult True) =
     Returned (consumer0\<lparr>processQueueTable := [(''T@b@0'', 0)],
        heap := (heap consumer0)
            (0 := \<lparr>messageQueue = mq0,
                   processQueue = \<lparr>lastPullTimestamp = 1000, droped = True, isPullExpired = False\<rparr>,
                   nextOffset = 100, row_droped = True\<rparr>),
        pullFromWhichNodeTable := [''T@b@0'' \<mapsto> 0],
        trace := [PullMessage ''addr'' header0 30000, Sleep 10000, UpdateOffset mq0 100 False,
                  Persist mq0, Persist mq0, RemoveOffset mq0]\<rparr>) ()"
  unfolding executePullRequestImmediately_def issue0
  by (simp add: pullRequestHandle_def answersWith_def illegalResult_def consumer0_def
        removeProcessQueue_def removeUnnecessaryMessageQueue_def row0_def header0_def
        mq0_def modify_row_def emit_def table_delete_def table_set_def set_droped_def Let_def)


lemma flag_simps [simp]:
  "flag (emit e s) q = flag s q"
  "flag (table_set k p s) q = flag s q"
  "flag (table_delete k s) q = flag s q"
  "flag (s\<lparr>pullFromWhichNodeTable := n\<rparr>) q = flag s q"
  "flag (modify_row p set_droped s) q = (q = p \<or> flag s q)"
  "flag (modify_row p (\<lambda>r. r\<lparr>nextOffset := n'\<rparr>) s) q = flag s q"
  "flag (modify_row p (\<lambda>r. r\<lparr>row_droped := b\<rparr>) s) q = flag s q"
  "flag (modify_row p (\<lambda>r. r\<lparr>processQueue := (processQueue r)\<lparr>lastPullTimestamp := ts\<rparr>\<rparr>) s) q
     = flag s q"
  by (auto simp add: flag_def emit_def table_set_def table_delete_def modify_row_def set_droped_def)

lemma heap_simps:
  "heap (emit e s) = heap s"
  "heap (table_set k p s) = heap s"
  "heap (table_delete k s) = heap s"
  "heap (modify_row p f s) = (heap s)(p := f (heap s p))"
  by (simp_all add: emit_def table_set_def table_delete_def modify_row_def)

lemma flag_pullKernelImpl:
  "flag (result_state (pullKernelImpl s mq se sv off co a)) q = flag s q"
  by (simp add: pullKernelImpl_def findBrokerAddress_def Let_def
        split: option.splits result.splits)

lemma flag_pullRequestIssue:
  "flag (pending_state (pullRequestIssue s mq a)) q = flag s q"
proof (cases "map_of (processQueueTable s) (key mq)")
  case None
  then show ?thesis by (simp add: pullRequestIssue_def)
next
  case (Some p)
  have k: "flag (pending_state (case r of Threw e s2 \<Rightarrow> Raised e s2
             | Returned s2 hdr \<Rightarrow> Issued s2 p sd hdr)) q = flag (result_state r) q" for r sd
    by (cases r) simp_all
  show ?thesis
    using Some
    by (simp add: pullRequestIssue_def Let_def k flag_pullKernelImpl
          split: option.splits sum.splits)
qed

lemma flag_removeProcessQueue:
  "flag (result_state (removeProcessQueue s mq ok)) q = flag s q"
  by (simp add: removeProcessQueue_def removeUnnecessaryMessageQueue_def Let_def
        split: option.splits)

lemma flag_pullRequestHandle:
  "flag s q \<Longrightarrow> flag (result_state (pullRequestHandle s mq p sd a)) q"
proof (cases "pullMessage a")
  case (Inl e)
  assume "flag s q"
  with Inl show ?thesis by (simp add: pullRequestHandle_def)
next
  case (Inr pr)
  assume f: "flag s q"
  have k: "flag (result_state (case r of Threw e s7 \<Rightarrow> Threw e s7
             | Returned s7 u \<Rightarrow> Returned (table_set (key mq) p s7) ())) q
           = flag (result_state r) q"
    for r :: "unit result"
    by (cases r) simp_all
  show ?thesis
    using Inr f
    by (cases "pullStatus pr")
       (simp_all add: pullRequestHandle_def Let_def correctTagsOffset_def k
          flag_removeProcessQueue)
qed

lemma flag_executePullRequestImmediately:
  assumes "flag s q"
  shows "flag (result_state (executePullRequestImmediately s mq a)) q"
proof (cases "pullRequestIssue s mq a")
  case (Done s1)
  then show ?thesis
    using assms flag_pullRequestIssue [of s mq a q]
    by (simp add: executePullRequestImmediately_def)
next
  case (Raised e s1)
  then show ?thesis
    using assms flag_pullRequestIssue [of s mq a q]
    by (simp add: executePullRequestImmediately_def)
next
  case (Issued s1 p sd hdr)
  then have "flag s1 q"
    using assms flag_pullRequestIssue [of s mq a q] by simp
  then show ?thesis
    using Issued by (simp add: executePullRequestImmediately_def flag_pullRequestHandle)
qed

lemma flag_dropAndRemove:
  "flag s q \<Longrightarrow> flag (result_state (dropAndRemove ra k p s c)) q"
  by (simp add: dropAndRemove_def removeUnnecessaryMessageQueue_def Let_def)

lemma flag_deleteUnnecessaryQueues:
  "flag s q \<Longrightarrow> flag (result_state (deleteUnnecessaryQueues ra t mqSet ks s c)) q"
proof (induction ks arbitrary: s c)
  case Nil
  then show ?case by simp
next
  case (Cons k ks)
  show ?case
  proof (cases "map_of (processQueueTable s) k")
    case None
    then show ?thesis using Cons.prems by simp
  next
    case (Some p)
    have d: "flag (result_state (case dropAndRemove ra k p s c of
                 Threw e s1 \<Rightarrow> Threw e s1
               | Returned s1 c' \<Rightarrow> deleteUnnecessaryQueues ra t mqSet ks s1 c')) q"
    proof (cases "dropAndRemove ra k p s c")
      case (Returned s1 c')
      then have "flag s1 q"
        using flag_dropAndRemove [OF Cons.prems, of ra k p c] by simp
      then show ?thesis
        using Returned Cons.IH by simp
    next
      case (Threw e s1)
      then show ?thesis
        using flag_dropAndRemove [OF Cons.prems, of ra k p c] by simp
    qed
    have c0: "flag (result_state (deleteUnnecessaryQueues ra t mqSet ks s c)) q"
      using Cons.IH [OF Cons.prems] .
    have pick: "P (if A then (if B then X else Y) else if C then X else Y)"
      if "P X" and "P Y" for P :: "bool result \<Rightarrow> bool" and A B C X Y
      using that by simp
    show ?thesis
      unfolding deleteUnnecessaryQueues.simps Some option.case
      using d c0 by (rule pick)
  qed
qed

lemma dropped_pull_returns:
  assumes "map_of (processQueueTable s) (key mq) = Some p"
    and "droped (processQueue (heap s p))"
  shows "executePullRequestImmediately s mq a = Returned s ()"
  using assms by (simp add: executePullRequestImmediately_def pullRequestIssue_def)

lemma handle_found_acked:
  assumes "pullMessage a = Inr pr"
    and "pullStatus pr = FOUND"
    and "filterByTags sd (msgFoundList pr) \<noteq> []"
    and "acked a"
  shows "\<exists>s'. pullRequestHandle s mq p sd a = Returned s' () \<and>
           offsetUpdates s' = offsetUpdates s @
             [(mq,
               jsAdd (toNumber (sint (queueOffset (last (filterByTags sd (msgFoundList pr)))))) 1,
               False)] \<and>
           nextOffset (heap s' p) = nextBeginOffset pr"
  using assms
  by (simp add: pullRequestHandle_def Let_def heap_simps)

lemma flag_iteration:
  assumes "flag s q"
  shows "flag (iteration s mq a) q"
proof (cases "executePullRequestImmediately s mq a")
  case (Returned s1 u)
  then show ?thesis
    using flag_executePullRequestImmediately [OF assms, of mq a]
    by (simp add: iteration_def)
next
  case (Threw e s1)
  then show ?thesis
    using flag_executePullRequestImmediately [OF assms, of mq a]
    by (simp add: iteration_def)
qed

lemma flag_iterations: "flag s q \<Longrightarrow> flag (iterations as s mq) q"
  by (induction as arbitrary: s) (simp_all add: flag_iteration)

lemma nextAddr_simps [simp]:
  "nextAddr (emit e s) = nextAddr s"
  "nextAddr (table_set k p s) = nextAddr s"
  "nextAddr (table_delete k s) = nextAddr s"
  "nextAddr (modify_row p f s) = nextAddr s"
  by (simp_all add: emit_def table_set_def table_delete_def modify_row_def)

lemma nextAddr_dropAndRemove:
  "nextAddr (result_state (dropAndRemove ra k p s c)) = nextAddr s"
  by (simp add: dropAndRemove_def removeUnnecessaryMessageQueue_def Let_def)

lemma nextAddr_deleteUnnecessaryQueues:
  "nextAddr (result_state (deleteUnnecessaryQueues ra t mqSet ks s c)) = nextAddr s"
proof (induction ks arbitrary: s c)
  case Nil
  then show ?case by simp
next
  case (Cons k ks)
  show ?case
  proof (cases "map_of (processQueueTable s) k")
    case None
    then show ?thesis by simp
  next
    case (Some p)
    have d: "nextAddr (result_state (case dropAndRemove ra k p s c of
                 Threw e s1 \<Rightarrow> Threw e s1
               | Returned s1 c' \<Rightarrow> deleteUnnecessaryQueues ra t mqSet ks s1 c')) = nextAddr s"
    proof (cases "dropAndRemove ra k p s c")
      case (Returned s1 c')
      then have "nextAddr s1 = nextAddr s"
        using nextAddr_dropAndRemove [of ra k p s c] by simp
      then show ?thesis
        using Returned Cons.IH [of s1 c'] by simp
    next
      case (Threw e s1)
      then show ?thesis
        using nextAddr_dropAndRemove [of ra k p s c] by simp
    qed
    have c0: "nextAddr (result_state (deleteUnnecessaryQueues ra t mqSet ks s c)) = nextAddr s"
      using Cons.IH .
    have pick: "P (if A then (if B then X else Y) else if C then X else Y)"
      if "P X" and "P Y" for P :: "bool result \<Rightarrow> bool" and A B C X Y
      using that by simp
    show ?thesis
      unfolding deleteUnnecessaryQueues.simps Some option.case
      using d c0 by (rule pick)
  qed
qed

lemma addNewQueue_keeps:
  assumes "flag s q" and "q < nextAddr s"
  shows "flag (fst (addNewQueue ra mq s c)) q \<and> q < nextAddr (fst (addNewQueue ra mq s c))"
  using assms
  by (simp add: addNewQueue_def Let_def flag_def emit_def table_set_def)

lemma addNewQueues_keeps:
  "flag s q \<Longrightarrow> q < nextAddr s \<Longrightarrow> flag (fst (addNewQueues ra mqs s c)) q"
proof (induction mqs arbitrary: s c)
  case Nil
  then show ?case by simp
next
  case (Cons mq mqs)
  obtain s1 c1 where a: "addNewQueue ra mq s c = (s1, c1)"
    by (cases "addNewQueue ra mq s c")
  have "flag s1 q \<and> q < nextAddr s1"
    using addNewQueue_keeps [OF Cons.prems, of ra mq c] a by simp
  then have "flag (fst (addNewQueues ra mqs s1 c1)) q"
    using Cons.IH by blast
  then show ?case
    using a by simp
qed

lemma flag_updateProcessQueueTableInRebalance:
  assumes "flag s q" and "q < nextAddr s"
  shows "flag (result_state (updateProcessQueueTableInRebalance s t mqSet ra)) q"
proof (cases "deleteUnnecessaryQueues ra t mqSet (map fst (processQueueTable s)) s False")
  case (Threw e s1)
  then show ?thesis
    using flag_deleteUnnecessaryQueues [OF assms(1), of ra t mqSet "map fst (processQueueTable s)" False]
    by (simp add: updateProcessQueueTableInRebalance_def)
next
  case (Returned s1 c1)
  have f: "flag s1 q"
    using flag_deleteUnnecessaryQueues [OF assms(1), of ra t mqSet "map fst (processQueueTable s)" False]
      Returned by simp
  have n: "q < nextAddr s1"
    using nextAddr_deleteUnnecessaryQueues [of ra t mqSet "map fst (processQueueTable s)" s False]
      Returned assms(2) by simp
  obtain s2 c2 where a: "addNewQueues ra mqSet s1 c1 = (s2, c2)"
    by (cases "addNewQueues ra mqSet s1 c1")
  have "flag s2 q"
    using addNewQueues_keeps [OF f n, of ra mqSet c1] a by simp
  then show ?thesis
    using Returned a by (simp add: updateProcessQueueTableInRebalance_def)
qed

lemma consumerIllegal_eq:
  "consumerIllegal = consumer0\<lparr>processQueueTable := [(''T@b@0'', 0)],
        heap := (heap consumer0)
            (0 := \<lparr>messageQueue = mq0,
                   processQueue = \<lparr>lastPullTimestamp = 1000, droped = True, isPullExpired = False\<rparr>,
                   nextOffset = 100, row_droped = True\<rparr>),
        pullFromWhichNodeTable := [''T@b@0'' \<mapsto> 0],
        trace := [PullMessage ''addr'' header0 30000, Sleep 10000, UpdateOffset mq0 100 False,
                  Persist mq0, Persist mq0, RemoveOffset mq0]\<rparr>"
  by (simp add: consumerIllegal_def executeIllegal)

lemma consumerIllegal_row:
  "map_of (processQueueTable consumerIllegal) (key mq0) = Some 0"
  "flag consumerIllegal 0"
  "has consumerIllegal (key mq0)"
  by (simp_all add: consumerIllegal_eq flag_def has_def mq0_def)

lemma consumerDropped_row:
  "flag consumerDropped 0"
  "\<not> has consumerDropped (key mq0)"
  "offsetUpdates consumerDropped = []"
  by (simp_all add: consumerDropped_eq flag_def has_def mq0_def offsetUpdates_def)

text \<open>
  Claim C3, as amended. Once the dropped flag of a ProcessQueue is set it is never reset to
  false: no pull, no run of the loop of the worker, no \<^verbatim>\<open>removeProcessQueue\<close> and no
  rebalance clears the flag of a row that exists. A pull that starts for a row whose flag is
  set returns at once, with no request and no call of \<^verbatim>\<open>updateOffset\<close>. But the flag is
  read only at the start of a pull: a pull result that arrives when the flag has been set
  in the meantime is handled like any other, \<open>nextOffset\<close> becomes \<open>nextBeginOffset\<close>, and
  for a FOUND batch that is acknowledged \<^verbatim>\<open>updateOffset\<close> is called.
\<close>

theorem dropped_flag:
  "(map_of (processQueueTable s) (key mq) = Some p \<and> flag s p \<longrightarrow>
      executePullRequestImmediately s mq a = Returned s ()) \<and>
   (flag s q \<longrightarrow>
      flag (pending_state (pullRequestIssue s mq a)) q \<and>
      flag (result_state (pullRequestHandle s mq p sd a)) q \<and>
      flag (result_state (executePullRequestImmediately s mq a)) q \<and>
      flag (iterations as s mq) q \<and>
      flag (result_state (removeProcessQueue s mq ok)) q \<and>
      flag (result_state (deleteUnnecessaryQueues ra t mqSet ks s c)) q \<and>
      (q < nextAddr s \<longrightarrow>
         flag (fst (addNewQueues ra mqSet s c)) q \<and>
         flag (result_state (updateProcessQueueTableInRebalance s t mqSet ra)) q)) \<and>
   (flag s p \<and> pullMessage a = Inr pr \<and> pullStatus pr = FOUND \<and>
    filterByTags sd (msgFoundList pr) \<noteq> [] \<and> acked a \<longrightarrow>
      (\<exists>s'. pullRequestHandle s mq p sd a = Returned s' () \<and>
         offsetUpdates s' = offsetUpdates s @
           [(mq,
             jsAdd (toNumber (sint (queueOffset (last (filterByTags sd (msgFoundList pr)))))) 1,
             False)] \<and>
         nextOffset (heap s' p) = nextBeginOffset pr))"
proof -
  have a: "map_of (processQueueTable s) (key mq) = Some p \<and> flag s p \<longrightarrow>
      executePullRequestImmediately s mq a = Returned s ()"
    using dropped_pull_returns [of s mq p a] by (simp add: flag_def)
  have b: "flag s q \<longrightarrow>
      flag (pending_state (pullRequestIssue s mq a)) q \<and>
      flag (result_state (pullRequestHandle s mq p sd a)) q \<and>
      flag (result_state (executePullRequestImmediately s mq a)) q \<and>
      flag (iterations as s mq) q \<and>
      flag (result_state (removeProcessQueue s mq ok)) q \<and>
      flag (result_state (deleteUnnecessaryQueues ra t mqSet ks s c)) q \<and>
      (q < nextAddr s \<longrightarrow>
         flag (fst (addNewQueues ra mqSet s c)) q \<and>
         flag (result_state (updateProcessQueueTableInRebalance s t mqSet ra)) q)"
    using flag_pullRequestIssue [of s mq a q] flag_pullRequestHandle [of s q mq p sd a]
      flag_executePullRequestImmediately [of s q mq a]
      flag_iterations [of s q as mq]
      flag_removeProcessQueue [of s mq ok q]
      flag_deleteUnnecessaryQueues [of s q ra t mqSet ks c]
      addNewQueues_keeps [of s q ra mqSet c]
      flag_updateProcessQueueTableInRebalance [of s q t mqSet ra]
    by simp
  have c: "flag s p \<and> pullMessage a = Inr pr \<and> pullStatus pr = FOUND \<and>
    filterByTags sd (msgFoundList pr) \<noteq> [] \<and> acked a \<longrightarrow>
      (\<exists>s'. pullRequestHandle s mq p sd a = Returned s' () \<and>
         offsetUpdates s' = offsetUpdates s @
           [(mq,
             jsAdd (toNumber (sint (queueOffset (last (filterByTags sd (msgFoundList pr)))))) 1,
             False)] \<and>
         nextOffset (heap s' p) = nextBeginOffset pr)"
    using handle_found_acked [of a pr sd s mq p] by blast
  show ?thesis
    using a b c by (intro conjI)
qed

lemma answers_found:
  "pullMessage (answersWith foundResult True) = Inr foundResult"
  "acked (answersWith foundResult True)"
  "pullStatus foundResult = FOUND"
  "nextBeginOffset foundResult = 8"
  "suggestWhichBrokerId foundResult = 0"
  by (simp_all add: answersWith_def foundResult_def acked_def)

lemma six: "jsAdd (toNumber (sint (queueOffset msgA))) 1 = 6"
  using jsAdd_one_safe [of 5] by (simp add: offset_msgA)

text \<open>Claim C3 as amended, for a row in the table with its flag set, where the pull returns
  at once, and for a row dropped while its request was under way, whose flag stays set
  through the answer and through a rebalance that assigns the queue again.\<close>

theorem dropped_flag_witness:
  "map_of (processQueueTable consumerIllegal) (key mq0) = Some 0 \<and>
   flag consumerIllegal 0 \<and>
   executePullRequestImmediately consumerIllegal mq0 (answersWith foundResult True) =
     Returned consumerIllegal () \<and>
   flag consumerDropped 0 \<and>
   0 < nextAddr consumerDropped \<and>
   pullMessage (answersWith foundResult True) = Inr foundResult \<and>
   pullStatus foundResult = FOUND \<and>
   filterByTags sd0 (msgFoundList foundResult) = [msgA] \<and>
   acked (answersWith foundResult True) \<and>
   flag (result_state (pullRequestHandle consumerDropped mq0 0 sd0 (answersWith foundResult True))) 0 \<and>
   flag (result_state (updateProcessQueueTableInRebalance consumerDropped ''T'' [mq0] rebalanceOk)) 0 \<and>
   offsetUpdates
     (result_state (pullRequestHandle consumerDropped mq0 0 sd0 (answersWith foundResult True))) =
     [(mq0, 6, False)]"
proof -
  note t = dropped_flag [of consumerIllegal mq0 0 "answersWith foundResult True" 0 sd0
      "[]" True rebalanceOk "''T''" "[mq0]" "[]" False foundResult]
  note u = dropped_flag [of consumerDropped mq0 0 "answersWith foundResult True" 0 sd0
      "[]" True rebalanceOk "''T''" "[mq0]" "[]" False foundResult]
  have na: "0 < nextAddr consumerDropped"
    by (simp add: consumerDropped_eq consumer0_def)
  have e: "executePullRequestImmediately consumerIllegal mq0 (answersWith foundResult True) =
     Returned consumerIllegal ()"
    using t consumerIllegal_row by simp
  have f: "flag (result_state
      (pullRequestHandle consumerDropped mq0 0 sd0 (answersWith foundResult True))) 0"
    using u consumerDropped_row by simp
  have g: "flag (result_state
      (updateProcessQueueTableInRebalance consumerDropped ''T'' [mq0] rebalanceOk)) 0"
    using u consumerDropped_row na by simp
  have n: "filterByTags sd0 (msgFoundList foundResult) \<noteq> []" by (simp add: filter0)
  have q: "jsAdd (toNumber (sint (queueOffset (last (filterByTags sd0 (msgFoundList foundResult))))))
             1 = 6"
    by (simp add: filter0 six)
  have o: "offsetUpdates
     (result_state (pullRequestHandle consumerDropped mq0 0 sd0 (answersWith foundResult True))) =
     [(mq0, 6, False)]"
    using u consumerDropped_row answers_found n q by auto
  show ?thesis
    using e f g o na consumerIllegal_row consumerDropped_row answers_found filter0 by simp
qed

text \<open>
  Claim C3 as stated fails. A pull is issued for the queue; while the request is under way a
  rebalance with an empty assignment drops the queue; then the answer FOUND arrives and is
  acknowledged: \<^verbatim>\<open>updateOffset(mq, 6)\<close> is called and \<open>nextOffset\<close> moves from 5 to 8,
  although the flag was set before the answer came.
\<close>

theorem dropped_flag_counterexample:
  "pullRequestIssue consumer0 mq0 (answersWith foundResult True) =
     Issued consumerIssued 0 sd0 header0 \<and>
   updateProcessQueueTableInRebalance consumerIssued ''T'' [] rebalanceOk =
     Returned consumerDropped True \<and>
   droped (processQueue (heap consumerDropped 0)) \<and>
   offsetUpdates consumerDropped = [] \<and>
   offsetUpdates
     (result_state (pullRequestHandle consumerDropped mq0 0 sd0 (answersWith foundResult True))) =
     [(mq0, 6, False)] \<and>
   nextOffset (heap consumerDropped 0) = 5 \<and>
   nextOffset
     (heap (result_state
        (pullRequestHandle consumerDropped mq0 0 sd0 (answersWith foundResult True))) 0) = 8"
proof -
  have i: "pullRequestIssue consumer0 mq0 (answersWith foundResult True) =
     Issued consumerIssued 0 sd0 header0"
    by (simp add: consumerIssued_eq issue0 header0_def)
  have r: "updateProcessQueueTableInRebalance consumerIssued ''T'' [] rebalanceOk =
     Returned consumerDropped True"
    unfolding consumerDropped_eq consumerIssued_eq
    by (simp add: updateProcessQueueTableInRebalance_def consumer0_def
        dropAndRemove_def removeUnnecessaryMessageQueue_def rebalanceOk_def row0_def
        mq0_def consumeType_def modify_row_def emit_def table_delete_def set_droped_def
        Let_def)
  have h: "pullRequestHandle consumerDropped mq0 0 sd0 (answersWith foundResult True) =
     Returned (table_set (key mq0) 0
        (emit (UpdateOffset mq0 6 False) (emit (EmitMessage [msgA])
           (modify_row 0 (\<lambda>r. r\<lparr>nextOffset := 8\<rparr>)
              (consumerDropped\<lparr>pullFromWhichNodeTable :=
                 (pullFromWhichNodeTable consumerDropped)(key mq0 \<mapsto> 0)\<rparr>))))) ()"
    by (simp add: pullRequestHandle_def answers_found filter0 Let_def six)
  have o: "offsetUpdates
     (result_state (pullRequestHandle consumerDropped mq0 0 sd0 (answersWith foundResult True))) =
     [(mq0, 6, False)]"
    unfolding h by (simp add: consumerDropped_row)
  have n: "nextOffset
     (heap (result_state
        (pullRequestHandle consumerDropped mq0 0 sd0 (answersWith foundResult True))) 0) = 8"
    unfolding h by (simp add: heap_simps)
  have d: "droped (processQueue (heap consumerDropped 0))"
    "nextOffset (heap consumerDropped 0) = 5"
    by (simp_all add: consumerDropped_eq row0_def)
  show ?thesis
    using i r o n d consumerDropped_row by simp
qed

lemma has_simps [simp]:
  "has (emit e s) k = has s k"
  "has (modify_row p f s) k = has s k"
  by (simp_all add: has_def emit_def modify_row_def)

lemma table_emit [simp]: "processQueueTable (emit e s) = processQueueTable s"
  by (simp add: emit_def)

lemma pullMessageQueue_unfold:
  "pullMessageQueue (a # as) s mq =
     (if has s (key mq) then pullMessageQueue as (iteration s mq a) mq else Some s)"
  by (cases "executePullRequestImmediately s mq a") (simp_all add: iteration_def)

declare pullMessageQueue.simps(2) [simp del]

lemma ex_le_Suc: "(\<exists>n \<le> Suc k. P n) = (P 0 \<or> (\<exists>m \<le> k. P (Suc m)))"
proof
  assume "\<exists>n \<le> Suc k. P n"
  then obtain n where n: "n \<le> Suc k" "P n" by blast
  show "P 0 \<or> (\<exists>m \<le> k. P (Suc m))"
  proof (cases n)
    case 0
    then show ?thesis using n by simp
  next
    case (Suc m)
    then show ?thesis using n by auto
  qed
next
  assume "P 0 \<or> (\<exists>m \<le> k. P (Suc m))"
  then show "\<exists>n \<le> Suc k. P n" by auto
qed

lemma all_le_Suc: "(\<forall>n \<le> Suc k. P n) = (P 0 \<and> (\<forall>m \<le> k. P (Suc m)))"
proof
  assume a: "\<forall>n \<le> Suc k. P n"
  then show "P 0 \<and> (\<forall>m \<le> k. P (Suc m))" by auto
next
  assume a: "P 0 \<and> (\<forall>m \<le> k. P (Suc m))"
  show "\<forall>n \<le> Suc k. P n"
  proof (intro allI impI)
    fix n assume "n \<le> Suc k"
    then show "P n" using a by (cases n) auto
  qed
qed

lemma pullMessageQueue_Some_iff:
  "(pullMessageQueue as s mq = Some s') =
     (\<exists>n \<le> length as. s' = iterations (take n as) s mq \<and> \<not> has s' (key mq) \<and>
        (\<forall>i < n. has (iterations (take i as) s mq) (key mq)))"
proof (induction as arbitrary: s)
  case Nil
  then show ?case by auto
next
  case (Cons a as)
  show ?case
  proof (cases "has s (key mq)")
    case False
    have "(\<exists>n \<le> length (a # as). s' = iterations (take n (a # as)) s mq \<and> \<not> has s' (key mq) \<and>
        (\<forall>i < n. has (iterations (take i (a # as)) s mq) (key mq))) = (s' = s)"
    proof
      assume "\<exists>n \<le> length (a # as). s' = iterations (take n (a # as)) s mq \<and>
        \<not> has s' (key mq) \<and> (\<forall>i < n. has (iterations (take i (a # as)) s mq) (key mq))"
      then obtain n where n: "s' = iterations (take n (a # as)) s mq"
        "\<forall>i < n. has (iterations (take i (a # as)) s mq) (key mq)" by blast
      have "n = 0"
      proof (rule ccontr)
        assume "n \<noteq> 0"
        then have "has (iterations (take 0 (a # as)) s mq) (key mq)" using n(2) by blast
        then show False using False by simp
      qed
      then show "s' = s" using n(1) by simp
    next
      assume "s' = s"
      then have "s' = iterations (take 0 (a # as)) s mq \<and> \<not> has s' (key mq) \<and>
        (\<forall>i < (0::nat). has (iterations (take i (a # as)) s mq) (key mq))"
        using False by simp
      then show "\<exists>n \<le> length (a # as). s' = iterations (take n (a # as)) s mq \<and>
        \<not> has s' (key mq) \<and> (\<forall>i < n. has (iterations (take i (a # as)) s mq) (key mq))"
        by blast
    qed
    then show ?thesis
      using False by (auto simp add: pullMessageQueue_unfold)
  next
    case True
    have l: "pullMessageQueue (a # as) s mq = pullMessageQueue as (iteration s mq a) mq"
      using True by (simp add: pullMessageQueue_unfold)
    have "(\<exists>n \<le> length (a # as). s' = iterations (take n (a # as)) s mq \<and> \<not> has s' (key mq) \<and>
        (\<forall>i < n. has (iterations (take i (a # as)) s mq) (key mq))) =
      (\<exists>m \<le> length as. s' = iterations (take m as) (iteration s mq a) mq \<and> \<not> has s' (key mq) \<and>
        (\<forall>i < m. has (iterations (take i as) (iteration s mq a) mq) (key mq)))"
      using True by (simp add: ex_le_Suc All_less_Suc2) blast
    then show ?thesis
      using Cons.IH [of "iteration s mq a"] l by simp
  qed
qed

lemma pullMessageQueue_None_iff:
  "(pullMessageQueue as s mq = None) =
     (\<forall>n \<le> length as. has (iterations (take n as) s mq) (key mq))"
proof (induction as arbitrary: s)
  case Nil
  then show ?case by simp
next
  case (Cons a as)
  show ?case
  proof (cases "has s (key mq)")
    case False
    then have "\<not> (\<forall>n \<le> length (a # as). has (iterations (take n (a # as)) s mq) (key mq))"
      by (auto intro: exI [of _ 0])
    then show ?thesis
      using False by (simp add: pullMessageQueue_unfold)
  next
    case True
    have "(\<forall>n \<le> length (a # as). has (iterations (take n (a # as)) s mq) (key mq)) =
          (\<forall>m \<le> length as. has (iterations (take m as) (iteration s mq a) mq) (key mq))"
      using True by (simp add: all_le_Suc)
    then show ?thesis
      using True Cons.IH [of "iteration s mq a"] by (simp add: pullMessageQueue_unfold)
  qed
qed

lemma iteration_dropped:
  assumes "map_of (processQueueTable s) (key mq) = Some p" and "flag s p"
  shows "iteration s mq a = emit (Sleep (pullInterval (options s))) s"
  using assms by (simp add: iteration_def dropped_pull_returns flag_def)

lemma pullMessageQueue_dropped:
  "map_of (processQueueTable s) (key mq) = Some p \<Longrightarrow> flag s p \<Longrightarrow>
   pullMessageQueue as s mq = None"
proof (induction as arbitrary: s)
  case Nil
  then show ?case by (simp add: has_def)
next
  case (Cons a as)
  have h: "has s (key mq)" using Cons.prems(1) by (simp add: has_def)
  have "pullMessageQueue as (emit (Sleep (pullInterval (options s))) s) mq = None"
    using Cons.prems by (intro Cons.IH) simp_all
  then show ?case
    using h iteration_dropped [OF Cons.prems] by (simp add: pullMessageQueue_unfold)
qed

text \<open>
  Claim C2, as amended. The loop of the worker leaves its \<^verbatim>\<open>while\<close> exactly at the first
  test at the head of an iteration at which the table does not contain the key of the queue:
  it ends, in the state reached after \<open>n\<close> runs of the body, when the key is absent then
  and was present at every earlier test, and it is still running when the key was present
  at every test. A dropped flag alone does not end it: while the key is in the table and the
  flag of its row is set, the pull of an iteration returns at once without a request, the
  iteration does nothing but sleep \<^verbatim>\<open>pullInterval\<close>, and the loop goes on, whatever the
  collaborators answer.
\<close>

theorem worker_loop_exit:
  "(pullMessageQueue as s mq = Some s') =
     (\<exists>n \<le> length as. s' = iterations (take n as) s mq \<and> \<not> has s' (key mq) \<and>
        (\<forall>i < n. has (iterations (take i as) s mq) (key mq))) \<and>
   (pullMessageQueue as s mq = None) =
     (\<forall>n \<le> length as. has (iterations (take n as) s mq) (key mq)) \<and>
   (map_of (processQueueTable s) (key mq) = Some p \<and> flag s p \<longrightarrow>
      executePullRequestImmediately s mq a = Returned s () \<and>
      iteration s mq a = emit (Sleep (pullInterval (options s))) s \<and>
      pullMessageQueue as s mq = None)"
proof -
  have d: "map_of (processQueueTable s) (key mq) = Some p \<and> flag s p \<longrightarrow>
      executePullRequestImmediately s mq a = Returned s () \<and>
      iteration s mq a = emit (Sleep (pullInterval (options s))) s \<and>
      pullMessageQueue as s mq = None"
    using dropped_pull_returns [of s mq p a] iteration_dropped [of s mq p a]
      pullMessageQueue_dropped [of s mq p as]
    by (simp add: flag_def)
  show ?thesis
    using pullMessageQueue_Some_iff [of as s mq s'] pullMessageQueue_None_iff [of as s mq] d
    by (intro conjI)
qed

lemma issueFails:
  "pullRequestIssue consumer0 mq0 answersRemoveFails =
     Issued
       (consumer0\<lparr>heap := (heap consumer0)
            (0 := row0\<lparr>processQueue := (processQueue row0)\<lparr>lastPullTimestamp := 1000\<rparr>\<rparr>),
          trace := [PullMessage ''addr''
            \<lparr>rh_consumerGroup = ''G'', rh_topic = ''T'', rh_queueId = 0, rh_queueOffset = 5,
             maxMsgNums = 32, sysFlag = 6, commitOffset = - 1, suspendTimeoutMillis = 15000,
             subscription = Some ''A||B'', rh_subVersion = 1\<rparr> 30000]\<rparr>)
       0 sd0
       \<lparr>rh_consumerGroup = ''G'', rh_topic = ''T'', rh_queueId = 0, rh_queueOffset = 5,
        maxMsgNums = 32, sysFlag = 6, commitOffset = - 1, suspendTimeoutMillis = 15000,
        subscription = Some ''A||B'', rh_subVersion = 1\<rparr>"
  by (simp add: pullRequestIssue_def consumer0_def mq0_def answersRemoveFails_def row0_def
        opts0_def sd0_def modify_row_def emit_def pullKernelImpl_def findBrokerAddress_def
        readCommitOffset_def recalculatePullFromWhichNode_def messageModelClustering_def Let_def
        buildSysFlag_def MASTER_ID_def)

lemma iterationFails:
  "iteration consumer0 mq0 answersRemoveFails =
     consumer0\<lparr>processQueueTable := [],
        heap := (heap consumer0)
            (0 := \<lparr>messageQueue = mq0,
                   processQueue = \<lparr>lastPullTimestamp = 1000, droped = True, isPullExpired = False\<rparr>,
                   nextOffset = 100, row_droped = True\<rparr>),
        pullFromWhichNodeTable := [''T@b@0'' \<mapsto> 0],
        trace := [PullMessage ''addr'' header0 30000, Sleep 10000, UpdateOffset mq0 100 False,
                  Persist mq0, Persist mq0, Sleep 3000]\<rparr>"
  unfolding iteration_def executePullRequestImmediately_def issueFails
  by (simp add: pullRequestHandle_def answersRemoveFails_def illegalResult_def consumer0_def
        removeProcessQueue_def removeUnnecessaryMessageQueue_def row0_def header0_def opts0_def
        mq0_def modify_row_def emit_def table_delete_def table_set_def set_droped_def Let_def)

lemma iterationFails_row:
  "has consumer0 (key mq0)"
  "\<not> has (iteration consumer0 mq0 answersRemoveFails) (key mq0)"
  by (simp_all add: iterationFails) (simp_all add: has_def consumer0_def mq0_def)

text \<open>Claim C2 as amended: the loop ends at its second test after an iteration in which
  \<^verbatim>\<open>removeProcessQueue\<close> deleted the key and then threw; it ends at once for a table
  without the key; and it does not end for a table with the key and a dropped row.\<close>

theorem worker_loop_exit_witness:
  "has consumer0 (key mq0) \<and>
   \<not> has (iteration consumer0 mq0 answersRemoveFails) (key mq0) \<and>
   pullMessageQueue [answersRemoveFails, answersWith foundResult True] consumer0 mq0 =
     Some (iteration consumer0 mq0 answersRemoveFails) \<and>
   \<not> has consumerDropped (key mq0) \<and>
   pullMessageQueue [answersWith foundResult True] consumerDropped mq0 = Some consumerDropped \<and>
   map_of (processQueueTable consumerIllegal) (key mq0) = Some 0 \<and>
   flag consumerIllegal 0 \<and>
   iteration consumerIllegal mq0 (answersWith foundResult True) =
     emit (Sleep (pullInterval (options consumerIllegal))) consumerIllegal \<and>
   pullMessageQueue [answersWith foundResult True, answersWith foundResult True]
     consumerIllegal mq0 = None"
proof -
  let ?as = "[answersRemoveFails, answersWith foundResult True]"
  let ?s1 = "iteration consumer0 mq0 answersRemoveFails"
  have "?s1 = iterations (take 1 ?as) consumer0 mq0 \<and> \<not> has ?s1 (key mq0) \<and>
        (\<forall>i < (1::nat). has (iterations (take i ?as) consumer0 mq0) (key mq0))"
    using iterationFails_row by simp
  then have "\<exists>n \<le> length ?as. ?s1 = iterations (take n ?as) consumer0 mq0 \<and>
        \<not> has ?s1 (key mq0) \<and>
        (\<forall>i < n. has (iterations (take i ?as) consumer0 mq0) (key mq0))"
    by (intro exI [of _ 1]) simp
  then have second: "pullMessageQueue ?as consumer0 mq0 = Some ?s1"
    using worker_loop_exit [of ?as consumer0 mq0 ?s1 0 "answersWith foundResult True"]
    by blast
  have "consumerDropped = iterations (take 0 [answersWith foundResult True]) consumerDropped mq0 \<and>
        \<not> has consumerDropped (key mq0) \<and>
        (\<forall>i < (0::nat). has (iterations (take i [answersWith foundResult True]) consumerDropped mq0)
           (key mq0))"
    using consumerDropped_row by simp
  then have "\<exists>n \<le> length [answersWith foundResult True].
        consumerDropped = iterations (take n [answersWith foundResult True]) consumerDropped mq0 \<and>
        \<not> has consumerDropped (key mq0) \<and>
        (\<forall>i < n. has (iterations (take i [answersWith foundResult True]) consumerDropped mq0)
           (key mq0))"
    by (intro exI [of _ 0]) simp
  then have absent: "pullMessageQueue [answersWith foundResult True] consumerDropped mq0 =
      Some consumerDropped"
    using worker_loop_exit [of "[answersWith foundResult True]" consumerDropped mq0
        consumerDropped 0 "answersWith foundResult True"]
    by blast
  have dropped: "iteration consumerIllegal mq0 (answersWith foundResult True) =
       emit (Sleep (pullInterval (options consumerIllegal))) consumerIllegal \<and>
     pullMessageQueue [answersWith foundResult True, answersWith foundResult True]
       consumerIllegal mq0 = None"
    using worker_loop_exit [of "[answersWith foundResult True, answersWith foundResult True]"
        consumerIllegal mq0 consumerIllegal 0 "answersWith foundResult True"]
      consumerIllegal_row
    by blast
  show ?thesis
    using second absent dropped iterationFails_row consumerDropped_row consumerIllegal_row
    by simp
qed

text \<open>
  Claim C2 as stated fails: after a pull answered OFFSET\_ILLEGAL the table contains the key
  and the flag of the row is set, and the loop does not end; it is still running after three
  more iterations.
\<close>

theorem worker_loop_exit_counterexample:
  "executePullRequestImmediately consumer0 mq0 (answersWith illegalResult True) =
     Returned consumerIllegal () \<and>
   has consumerIllegal (key mq0) \<and>
   droped (processQueue (heap consumerIllegal 0)) \<and>
   pullMessageQueue
     [answersWith foundResult True, answersWith foundResult True, answersWith foundResult True]
     consumerIllegal mq0 = None"
proof -
  have e: "executePullRequestImmediately consumerIllegal mq0 a = Returned consumerIllegal ()" for a
    using consumerIllegal_row by (simp add: dropped_pull_returns flag_def)
  have s: "executePullRequestImmediately (emit ev consumerIllegal) mq0 a =
             Returned (emit ev consumerIllegal) ()" for a ev
    using consumerIllegal_row
    by (intro dropped_pull_returns [of _ _ 0]) (simp_all add: flag_def heap_simps)
  have s2: "executePullRequestImmediately (emit ev' (emit ev consumerIllegal)) mq0 a =
             Returned (emit ev' (emit ev consumerIllegal)) ()" for a ev ev'
    using consumerIllegal_row
    by (intro dropped_pull_returns [of _ _ 0]) (simp_all add: flag_def heap_simps)
  have l: "pullMessageQueue
     [answersWith foundResult True, answersWith foundResult True, answersWith foundResult True]
     consumerIllegal mq0 = None"
    using consumerIllegal_row(3) by (simp add: pullMessageQueue.simps(2) e s s2)
  have x: "executePullRequestImmediately consumer0 mq0 (answersWith illegalResult True) =
     Returned consumerIllegal ()"
    by (simp add: executeIllegal consumerIllegal_eq)
  show ?thesis
    using l x consumerIllegal_row by (simp add: flag_def)
qed

text \<open>
  Claim C1 on the consumer with one queue, for a pull answered OFFSET\_ILLEGAL with
  \<open>nextBeginOffset = 100\<close>. The row is dropped, the worker sleeps 10 seconds, calls
  \<^verbatim>\<open>updateOffset(mq, 100)\<close> and persists, and \<^verbatim>\<open>removeProcessQueue\<close> deletes the key; but
  the last statement of \<^verbatim>\<open>executePullRequestImmediately\<close> puts the row back, so that the
  key is still in the table when the pull returns, and a later rebalance that assigns the
  queue finds the key and adds nothing.
\<close>

theorem offset_illegal_row_stays:
  "executePullRequestImmediately consumer0 mq0 (answersWith illegalResult True) =
     Returned consumerIllegal () \<and>
   trace consumerIllegal =
     [PullMessage ''addr'' header0 30000, Sleep 10000, UpdateOffset mq0 100 False,
      Persist mq0, Persist mq0, RemoveOffset mq0] \<and>
   droped (processQueue (heap consumerIllegal 0)) \<and>
   processQueueTable consumerIllegal = [(''T@b@0'', 0)] \<and>
   has consumerIllegal (key mq0) \<and>
   updateProcessQueueTableInRebalance consumerIllegal ''T'' [mq0] rebalanceOk =
     Returned consumerIllegal False"
proof -
  have x: "executePullRequestImmediately consumer0 mq0 (answersWith illegalResult True) =
     Returned consumerIllegal ()"
    by (simp add: executeIllegal consumerIllegal_eq)
  have t: "trace consumerIllegal =
     [PullMessage ''addr'' header0 30000, Sleep 10000, UpdateOffset mq0 100 False,
      Persist mq0, Persist mq0, RemoveOffset mq0]"
    and d: "droped (processQueue (heap consumerIllegal 0))"
    and p: "processQueueTable consumerIllegal = [(''T@b@0'', 0)]"
    by (simp_all add: consumerIllegal_eq)
  have m: "topic (messageQueue (heap consumerIllegal 0)) = ''T''"
    "key (messageQueue (heap consumerIllegal 0)) = key mq0"
    by (simp_all add: consumerIllegal_eq mq0_def)
  have k: "key mq0 = ''T@b@0''" by (simp add: mq0_def)
  have r: "updateProcessQueueTableInRebalance consumerIllegal ''T'' [mq0] rebalanceOk =
     Returned consumerIllegal False"
    using consumerIllegal_row(3)
    by (simp add: updateProcessQueueTableInRebalance_def p m addNewQueue_def)
  show ?thesis
    using x t d p r consumerIllegal_row by simp
qed

text \<open>The same for every consumer, queue and row: after an OFFSET\_ILLEGAL answer the key
  maps to the row of the request.\<close>

lemma offset_illegal_general:
  assumes "pullMessage a = Inr pr"
    and "pullStatus pr = OFFSET_ILLEGAL"
    and "persistOk a" and "persistOkOnRemove a"
  shows "\<exists>s'. pullRequestHandle s mq p sd a = Returned s' () \<and>
           map_of (processQueueTable s') (key mq) = Some p \<and> flag s' p \<and>
           trace s' = trace s @
             [Sleep 10000, UpdateOffset mq (nextBeginOffset pr) False, Persist mq] @
             (if has s (key mq) then [Persist mq, RemoveOffset mq] else [])"
  using assms
  by (auto simp add: pullRequestHandle_def removeProcessQueue_def
        removeUnnecessaryMessageQueue_def Let_def table_set_def table_delete_def emit_def
        modify_row_def set_droped_def flag_def has_def update_conv'
        split: option.splits)

end
